theory Spec2Isabelle
  imports Main "HOL-Library.Sublist"
begin

section \<open>Strings\<close>

text \<open>
  A JavaScript string is a sequence of code units. The model uses \<^typ>\<open>string\<close>, one
  \<^typ>\<open>char\<close> per code unit, which covers the code units below 256. Of the four
  ECMAScript line terminators (LF, CR, U+2028, U+2029) the two that lie in this range are
  LF and CR; they are the characters the regular-expression atom \<^verbatim>\<open>.\<close> refuses.
\<close>

definition isLineTerminator :: "char \<Rightarrow> bool" where
  "isLineTerminator ch = (ch = CHR 0x0A \<or> ch = CHR 0x0D)"

text \<open>\<^verbatim>\<open>String.prototype.startsWith\<close> and \<^verbatim>\<open>String.prototype.endsWith\<close>.\<close>

definition startsWith :: "string \<Rightarrow> string \<Rightarrow> bool" where
  "startsWith s p = (take (length p) s = p)"

definition endsWith :: "string \<Rightarrow> string \<Rightarrow> bool" where
  "endsWith s p = (length p \<le> length s \<and> drop (length s - length p) s = p)"

section \<open>Inline text transformations (content.js 92--111, addTag.js 10--44)\<close>

text \<open>
  The three functions call \<^verbatim>\<open>text.replace(/O(.*?)C/g, 'A$1B')\<close> for literal delimiters
  \<^verbatim>\<open>O\<close> and \<^verbatim>\<open>C\<close>. \<open>lazyClose c s\<close> is the regular-expression engine on the
  tail \<^verbatim>\<open>(.*?)C\<close> at the start of \<open>s\<close>: the lazy star first tries to stop, and only
  when \<open>C\<close> does not follow does it consume one more character, which must not be a line
  terminator. It returns the captured group and what follows the match.
\<close>

fun lazyClose :: "string \<Rightarrow> string \<Rightarrow> (string \<times> string) option" where
  "lazyClose c [] = (if c = [] then Some ([], []) else None)"
| "lazyClose c (x # xs) =
     (if startsWith (x # xs) c then Some ([], drop (length c) (x # xs))
      else if isLineTerminator x then None
      else (case lazyClose c xs of
              None \<Rightarrow> None
            | Some (mid, rest) \<Rightarrow> Some (x # mid, rest)))"

lemma lazyClose_length:
  "lazyClose c s = Some (mid, rest) \<Longrightarrow> length rest \<le> length s"
proof (induction s arbitrary: mid)
  case Nil
  then show ?case by (simp split: if_splits)
next
  case (Cons x xs)
  then show ?case
    by (fastforce split: if_splits option.splits)
qed

text \<open>
  The global replace scans from the left. At a position where the opening delimiter and
  then \<^verbatim>\<open>(.*?)C\<close> match, the match is replaced by \<open>A\<close>, the group and \<open>B\<close>, and the scan
  resumes behind the match; elsewhere the character is copied and the scan moves one
  position on. The delimiters of the three rules are not empty, so a match is never empty.
\<close>

function regexReplace :: "string \<Rightarrow> string \<Rightarrow> string \<Rightarrow> string \<Rightarrow> string \<Rightarrow> string" where
  "regexReplace opn cls A B [] = []"
| "regexReplace opn cls A B (x # xs) =
     (if opn \<noteq> [] \<and> startsWith (x # xs) opn then
        (case lazyClose cls (drop (length opn) (x # xs)) of
           Some (mid, rest) \<Rightarrow> A @ mid @ B @ regexReplace opn cls A B rest
         | None \<Rightarrow> x # regexReplace opn cls A B xs)
      else x # regexReplace opn cls A B xs)"
  by pat_completeness auto
termination
proof (relation "measure (\<lambda>(opn, cls, A, B, s). length s)")
  show "wf (measure (\<lambda>(opn, cls, A, B, s). length s))" by simp
next
  fix opn cls A B :: string and x xs x2 mid rest
  assume "opn \<noteq> [] \<and> startsWith (x # xs) opn"
    and "lazyClose cls (drop (length opn) (x # xs)) = Some x2"
    and "(mid, rest) = x2"
  then have "length rest \<le> length (drop (length opn) (x # xs))"
    using lazyClose_length by metis
  moreover have "length (drop (length opn) (x # xs)) < length (x # xs)"
    using \<open>opn \<noteq> [] \<and> startsWith (x # xs) opn\<close> by (cases opn) auto
  ultimately show "((opn, cls, A, B, rest), (opn, cls, A, B, x # xs))
      \<in> measure (\<lambda>(opn, cls, A, B, s). length s)"
    by simp
qed auto

definition markOpen :: string where "markOpen = ''<mark>''"
definition markClose :: string where "markClose = ''</mark>''"
definition supOpen :: string where \<open>supOpen = ''<sup class="suptext">''\<close>
definition supClose :: string where "supClose = ''</sup>''"
definition subOpen :: string where \<open>subOpen = ''<sub class="subtext">''\<close>
definition subClose :: string where "subClose = ''</sub>''"

definition addMarkTags :: "string \<Rightarrow> string" where
  "addMarkTags text = regexReplace ''=='' ''=='' markOpen markClose text"

definition addSuperScript :: "string \<Rightarrow> string" where
  "addSuperScript text = regexReplace ''^'' ''^'' supOpen supClose text"

definition addSubScript :: "string \<Rightarrow> string" where
  "addSubScript text = regexReplace ''_-'' ''-_'' subOpen subClose text"

text \<open>
  The three calls in sequence, as \<^verbatim>\<open>applyTextTransformationsToTextNodes\<close> (content.js
  147--149) and \<^verbatim>\<open>applyTextTransformations\<close> (addTag.js 61--63) make them.
\<close>

definition applyTransformations :: "string \<Rightarrow> string" where
  "applyTransformations content = addSubScript (addSuperScript (addMarkTags content))"

section \<open>Spans of a rule, as the specification words them\<close>

text \<open>
  The notions below do not mention the matcher. A string is on a single line when it holds
  no line terminator. A span of a rule with delimiters \<open>opn\<close> and \<open>cls\<close> starts at the
  head of \<open>s\<close> when \<open>s\<close> begins with \<open>opn\<close> and, \<open>k\<close> characters of a single line
  later, \<open>cls\<close> follows. \<open>firstSpan\<close> says that \<open>pre @ opn @ mid @ cls @ rest\<close> splits
  the text at its leftmost span, taken with the nearest closing delimiter: no span starts
  inside \<open>pre\<close>, and \<open>cls\<close> occurs nowhere in \<open>mid @ cls\<close> before the end. A text is
  \<open>spanFree\<close> when no span starts at any of its positions.
\<close>

definition singleLine :: "string \<Rightarrow> bool" where
  "singleLine s = (\<forall>ch\<in>set s. \<not> isLineTerminator ch)"

definition spanStarts :: "string \<Rightarrow> string \<Rightarrow> string \<Rightarrow> bool" where
  "spanStarts opn cls s =
     (startsWith s opn \<and>
      (\<exists>k\<in>{0..<Suc (length s)}. startsWith (drop (length opn + k) s) cls
          \<and> singleLine (take k (drop (length opn) s))))"

definition firstSpan :: "string \<Rightarrow> string \<Rightarrow> string \<Rightarrow> string \<Rightarrow> string \<Rightarrow> string \<Rightarrow> bool" where
  "firstSpan opn cls text pre mid rest =
     (text = pre @ opn @ mid @ cls @ rest \<and> singleLine mid
      \<and> (\<forall>k\<in>{0..<length mid}. \<not> startsWith (drop k (mid @ cls)) cls)
      \<and> (\<forall>i\<in>{0..<length pre}. \<not> spanStarts opn cls (drop i text)))"

definition spanFree :: "string \<Rightarrow> string \<Rightarrow> string \<Rightarrow> bool" where
  "spanFree opn cls text = (\<forall>i\<in>{0..<length text}. \<not> spanStarts opn cls (drop i text))"

text \<open>
  A text cut into stretches: each segment is a stretch \<open>pre\<close> followed by a stretch
  \<open>mid\<close> enclosed in \<open>L\<close> and \<open>R\<close>, and \<open>tail\<close> is what follows the last segment.
  Two assemblies of the same segments and tail differ in the enclosing strings only.
\<close>

fun assemble :: "string \<Rightarrow> string \<Rightarrow> (string \<times> string) list \<Rightarrow> string \<Rightarrow> string" where
  "assemble L R [] tail = tail"
| "assemble L R ((pre, mid) # segs) tail = pre @ L @ mid @ R @ assemble L R segs tail"

text \<open>
  A text has a span of a rule when an opening delimiter, a single-line stretch and a closing
  delimiter occur in it in this order. A tag avoids a delimiter \<open>m\<close> when no occurrence of
  \<open>m\<close> can overlap the tag in any text: the tag neither begins nor ends with a character
  of \<open>m\<close> and does not contain \<open>m\<close>.
\<close>

definition hasSpan :: "string \<Rightarrow> string \<Rightarrow> string \<Rightarrow> bool" where
  "hasSpan opn cls s = (\<exists>u v w. s = u @ opn @ v @ cls @ w \<and> singleLine v)"

definition tagAvoids :: "string \<Rightarrow> string \<Rightarrow> bool" where
  "tagAvoids T m = (T \<noteq> [] \<and> hd T \<notin> set m \<and> last T \<notin> set m \<and> \<not> sublist m T)"

section \<open>The text-node walker (content.js 116--163, addTag.js 74--128)\<close>

text \<open>
  The live tree: an element with its tag name (upper case in an HTML document) and its
  child nodes, a text node with its content, and a comment as the remaining leaf kind.
\<close>

datatype dom = Element string "dom list" | Text string | Comment string

text \<open>
  The function returns no value. It either returns or lets the exception of the fragment
  parse (\<^verbatim>\<open>tempDiv.innerHTML = content\<close>) escape; neither \<^verbatim>\<open>forEach\<close> nor the function
  catches anything.
\<close>

datatype completion = Completed | Thrown

text \<open>
  The parse of a markup fragment is the browser's; it is a parameter. \<open>None\<close> stands for
  the setter raising, \<open>Some ns\<close> for the child nodes moved into the document fragment.
\<close>

type_synonym fragmentParser = "string \<Rightarrow> dom list option"

text \<open>
  \<^verbatim>\<open>String.prototype.trim\<close> strips white space and line terminators at both ends; these
  are the ones among the code units below 256.
\<close>

definition isWhiteSpace :: "char \<Rightarrow> bool" where
  "isWhiteSpace ch =
     (ch \<in> set [CHR 0x09, CHR 0x0A, CHR 0x0B, CHR 0x0C, CHR 0x0D, CHR 0x20, CHR 0xA0])"

definition trim :: "string \<Rightarrow> string" where
  "trim s = rev (dropWhile isWhiteSpace (rev (dropWhile isWhiteSpace s)))"

text \<open>
  The filter of the tree walker, on a text node with the tag of its parent element:
  \<open>False\<close> is \<^verbatim>\<open>FILTER_REJECT\<close>, \<open>True\<close> is \<^verbatim>\<open>FILTER_ACCEPT\<close>.
\<close>

definition acceptNode :: "string \<Rightarrow> string \<Rightarrow> bool" where
  "acceptNode parentTag textContent =
     (\<not> (trim textContent = [] \<or> parentTag = ''CODE'' \<or> parentTag = ''PRE''))"

text \<open>
  The body of \<^verbatim>\<open>forEach\<close> on one collected text node: the nodes that stand in its place
  afterwards, or \<open>None\<close> when the parse raises. An unchanged content leaves the node.
\<close>

definition replaceTextNode :: "fragmentParser \<Rightarrow> string \<Rightarrow> dom list option" where
  "replaceTextNode parse originalContent =
     (let content = applyTransformations originalContent
      in if content \<noteq> originalContent then parse content else Some [Text originalContent])"

text \<open>
  The walker is created with \<^verbatim>\<open>SHOW_TEXT\<close>: an element is not shown, which skips the
  element but not its subtree, so \<^verbatim>\<open>nextNode\<close> reaches every text node below the root in
  document order and the filter decides on each. The source collects the accepted nodes
  first and then replaces them in that order. A replacement changes neither another
  collected node nor any parent's tag, and the inserted nodes are not collected, so the two
  phases are one pass over the tree in document order. The pass carries whether the
  exception has been raised: from then on no statement of the function runs and every node
  stays as it is. \<open>walk\<close> returns the nodes that stand in place of the node given.
\<close>

fun walk :: "fragmentParser \<Rightarrow> string \<Rightarrow> completion \<Rightarrow> dom \<Rightarrow> completion \<times> dom list"
  and walkList :: "fragmentParser \<Rightarrow> string \<Rightarrow> completion \<Rightarrow> dom list \<Rightarrow> completion \<times> dom list"
where
  "walk parse parentTag st (Text c) =
     (if st = Thrown \<or> \<not> acceptNode parentTag c then (st, [Text c])
      else (case replaceTextNode parse c of
              None \<Rightarrow> (Thrown, [Text c])
            | Some ns \<Rightarrow> (Completed, ns)))"
| "walk parse parentTag st (Comment c) = (st, [Comment c])"
| "walk parse parentTag st (Element tag kids) =
     (case walkList parse tag st kids of (st', kids') \<Rightarrow> (st', [Element tag kids']))"
| "walkList parse parentTag st [] = (st, [])"
| "walkList parse parentTag st (n # ns) =
     (case walk parse parentTag st n of
        (st1, r1) \<Rightarrow> (case walkList parse parentTag st1 ns of
                        (st2, r2) \<Rightarrow> (st2, r1 @ r2)))"

text \<open>
  The function on its argument, the tree as it is afterwards and how the call ended. The
  first test looks at the tag of the argument alone.
\<close>

fun applyTextTransformationsToTextNodes :: "fragmentParser \<Rightarrow> dom \<Rightarrow> dom \<times> completion" where
  "applyTextTransformationsToTextNodes parse (Element tag kids) =
     (if tag \<in> set [''SCRIPT'', ''STYLE'', ''CODE'', ''PRE''] then (Element tag kids, Completed)
      else (case walkList parse tag Completed kids of
              (st, kids') \<Rightarrow> (Element tag kids', st)))"
| "applyTextTransformationsToTextNodes parse n = (n, Completed)"

text \<open>
  The list \<^verbatim>\<open>textNodes\<close> that the loop over \<^verbatim>\<open>walker.nextNode()\<close> builds: the contents of
  the accepted text nodes below a node, in document order.
\<close>

fun textNodes :: "string \<Rightarrow> dom \<Rightarrow> string list"
  and textNodesList :: "string \<Rightarrow> dom list \<Rightarrow> string list"
where
  "textNodes parentTag (Text c) = (if acceptNode parentTag c then [c] else [])"
| "textNodes parentTag (Comment c) = []"
| "textNodes parentTag (Element tag kids) = textNodesList tag kids"
| "textNodesList parentTag [] = []"
| "textNodesList parentTag (n # ns) = textNodes parentTag n @ textNodesList parentTag ns"

text \<open>
  A place in a tree, given from the outside in: each frame is an element on the way down,
  with its tag, the siblings before it and the siblings after it. \<open>plug\<close> puts a list of
  nodes at that place, and \<open>innerTag\<close> is the tag of the element whose children they
  become. Two lists of frames are \<open>walkedFrames\<close> when they differ only in the siblings
  before, and those of the second are what a completed walk makes of those of the first.
\<close>

type_synonym frame = "dom list \<times> string \<times> dom list"

fun plug :: "frame list \<Rightarrow> dom list \<Rightarrow> dom list" where
  "plug [] inner = inner"
| "plug ((before, tag, after) # fs) inner = before @ Element tag (plug fs inner) # after"

fun innerTag :: "string \<Rightarrow> frame list \<Rightarrow> string" where
  "innerTag parentTag [] = parentTag"
| "innerTag parentTag ((before, tag, after) # fs) = innerTag tag fs"

fun walkedFrames :: "fragmentParser \<Rightarrow> string \<Rightarrow> frame list \<Rightarrow> frame list \<Rightarrow> bool" where
  "walkedFrames parse parentTag [] [] = True"
| "walkedFrames parse parentTag ((before, tag, after) # fs) ((before', tag', after') # fs') =
     (walkList parse parentTag Completed before = (Completed, before')
      \<and> tag' = tag \<and> after' = after \<and> walkedFrames parse tag fs fs')"
| "walkedFrames parse parentTag [] (f' # fs') = False"
| "walkedFrames parse parentTag (f # fs) [] = False"

text \<open>
  For concrete runs in an XHTML document, where \<^verbatim>\<open>innerHTML\<close> goes through the XML parser
  and a fragment that is not well-formed raises: the three well-formed fragments of the
  examples with the nodes they parse to. A fragment with a bare \<^verbatim>\<open><\<close>, such as
  \<^verbatim>\<open>1 < 2 <mark>a</mark>\<close>, is not well-formed. No other string is parsed in the examples.
\<close>

definition xmlFragments :: fragmentParser where
  "xmlFragments =
     map_of [(''<mark>a</mark>'', [Element ''mark'' [Text ''a'']]),
             (''<mark>b</mark>'', [Element ''mark'' [Text ''b'']]),
             (''<mark>c</mark>'', [Element ''mark'' [Text ''c'']])]"

section \<open>Tree decorators (content.js 170--284)\<close>

text \<open>
  A node of the syntax tree is a JavaScript object. The model keeps the fields the two
  decorators read or write: \<^verbatim>\<open>type\<close>, \<^verbatim>\<open>tagName\<close>, \<^verbatim>\<open>name\<close>, \<^verbatim>\<open>properties\<close>,
  \<^verbatim>\<open>data.value\<close> (\<open>dataValue\<close>, absent when \<^verbatim>\<open>data\<close> or its \<^verbatim>\<open>value\<close> is),
  \<^verbatim>\<open>value\<close> (\<open>nodeValue\<close>) and \<^verbatim>\<open>children\<close>; \<open>None\<close> is \<^verbatim>\<open>undefined\<close>. A property
  value is a string or an array of strings, and \<^verbatim>\<open>properties\<close> keeps its keys in
  insertion order. Parent nodes of the tree always carry a \<^verbatim>\<open>children\<close> array; a leaf,
  which has none, is modelled with the empty list, on which \<^verbatim>\<open>visit\<close> does the same.
  The trees are trees: no array or node is shared between two places.

  The strings that the decorators read have code units below 256 and are of type
  \<^typ>\<open>string\<close>. Two strings that they write come out of \<^verbatim>\<open>toUpperCase\<close>, which can leave
  this range: the \<^verbatim>\<open>title\<close> of a language icon and the value of the text node of an
  admonition title. These are lists of code units given as numbers (\<open>Wide\<close>, \<open>nodeValue\<close>),
  and \<open>units\<close> reads a string as such a list.
\<close>

type_synonym codeUnits = "nat list"

definition units :: "string \<Rightarrow> codeUnits" where
  "units s = map of_char s"

datatype propValue = Str string | Tokens "string list" | Wide codeUnits

type_synonym props = "(string \<times> propValue) list"

datatype node = Node (type: string) (tagName: "string option") (name: "string option")
  (properties: "props option") (dataValue: "string option") (nodeValue: "codeUnits option")
  (children: "node list")

datatype error = TypeError

text \<open>
  \<^verbatim>\<open>toLowerCase\<close> and \<^verbatim>\<open>toUpperCase\<close> on code units below 256: the ASCII letters and the
  letters of the Latin-1 block. Lower case stays below 256. The upper case of the sharp s
  (223) is \<^verbatim>\<open>SS\<close>, that of the micro sign (181) is U+039C and that of the y with
  diaeresis (255) is U+0178, so the result is a list of code units.
\<close>

definition toLowerCaseChar :: "char \<Rightarrow> char" where
  "toLowerCaseChar c =
     (let n = (of_char c :: nat)
      in if (65 \<le> n \<and> n \<le> 90) \<or> (192 \<le> n \<and> n \<le> 222 \<and> n \<noteq> 215)
         then char_of (n + 32) else c)"

definition toLowerCase :: "string \<Rightarrow> string" where
  "toLowerCase s = map toLowerCaseChar s"

definition toUpperCaseChar :: "char \<Rightarrow> codeUnits" where
  "toUpperCaseChar c =
     (let n = (of_char c :: nat)
      in if (97 \<le> n \<and> n \<le> 122) \<or> (224 \<le> n \<and> n \<le> 254 \<and> n \<noteq> 247)
         then [n - 32]
         else if n = 223 then [83, 83]
         else if n = 181 then [924]
         else if n = 255 then [376]
         else [n])"

definition toUpperCase :: "string \<Rightarrow> codeUnits" where
  "toUpperCase s = concat (map toUpperCaseChar s)"

text \<open>\<^verbatim>\<open>String.prototype.split\<close> with a separator of one character.\<close>

fun split :: "char \<Rightarrow> string \<Rightarrow> string list" where
  "split sep [] = [[]]"
| "split sep (c # cs) =
     (if c = sep then [] # split sep cs
      else (case split sep cs of w # ws \<Rightarrow> (c # w) # ws | [] \<Rightarrow> [[c]]))"

text \<open>
  Reading a property of an object literal. The literal's own keys come first; a key it
  does not have is looked up in \<^verbatim>\<open>Object.prototype\<close>, whose properties are functions
  and, for \<^verbatim>\<open>__proto__\<close>, the prototype object itself; any other key reads as
  \<^verbatim>\<open>undefined\<close>.
\<close>

datatype jsValue = StringValue string | ObjectValue | Undefined

definition objectPrototypeProperties :: "string list" where
  "objectPrototypeProperties =
     [''constructor'', ''__proto__'', ''hasOwnProperty'', ''isPrototypeOf'',
      ''propertyIsEnumerable'', ''toLocaleString'', ''toString'', ''valueOf'',
      ''__defineGetter__'', ''__defineSetter__'', ''__lookupGetter__'', ''__lookupSetter__'']"

definition getProperty :: "(string \<times> string) list \<Rightarrow> string \<Rightarrow> jsValue" where
  "getProperty obj key =
     (case map_of obj key of
        Some v \<Rightarrow> StringValue v
      | None \<Rightarrow> if key \<in> set objectPrototypeProperties then ObjectValue else Undefined)"

text \<open>\<^verbatim>\<open>a || b\<close>: \<open>b\<close> when \<open>a\<close> is \<^verbatim>\<open>undefined\<close> or the empty string.\<close>

definition orElse :: "jsValue \<Rightarrow> jsValue \<Rightarrow> jsValue" where
  "orElse a b = (case a of StringValue v \<Rightarrow> if v = [] then b else a
                 | ObjectValue \<Rightarrow> a | Undefined \<Rightarrow> b)"

text \<open>\<^verbatim>\<open>x.split(' ')\<close>, a method of strings only.\<close>

definition splitValue :: "jsValue \<Rightarrow> error + string list" where
  "splitValue x = (case x of StringValue v \<Rightarrow> Inr (split CHR '' '' v) | _ \<Rightarrow> Inl TypeError)"

text \<open>Assignment to a key of \<^verbatim>\<open>properties\<close>: in place, or behind the keys present.\<close>

fun setProperty :: "string \<Rightarrow> propValue \<Rightarrow> props \<Rightarrow> props" where
  "setProperty k v [] = [(k, v)]"
| "setProperty k v ((k', v') # ps) =
     (if k' = k then (k, v) # ps else (k', v') # setProperty k v ps)"

text \<open>
  Reading \<^verbatim>\<open>properties.className\<close> where the code goes on to call an array method on it
  when it is truthy: \<open>None\<close> when it is absent or the empty string, the array, and a
  \<^verbatim>\<open>TypeError\<close> for a string that is not empty, which has neither \<^verbatim>\<open>find\<close> nor
  \<^verbatim>\<open>push\<close>.
\<close>

definition classArray :: "props \<Rightarrow> error + string list option" where
  "classArray ps =
     (case map_of ps ''className'' of
        None \<Rightarrow> Inr None
      | Some (Tokens cls) \<Rightarrow> Inr (Some cls)
      | Some (Str s) \<Rightarrow> if s = [] then Inr None else Inl TypeError
      | Some (Wide u) \<Rightarrow> if u = [] then Inr None else Inl TypeError)"

subsection \<open>Language icons (content.js 25--83, 178--225)\<close>

definition languageIcons :: "(string \<times> string) list" where
  "languageIcons =
    [(''javascript'', ''fab fa-js-square''),
     (''js'', ''fab fa-js-square''),
     (''typescript'', ''fab fa-js-square''),
     (''ts'', ''fab fa-js-square''),
     (''python'', ''fab fa-python''),
     (''py'', ''fab fa-python''),
     (''java'', ''fab fa-java''),
     (''php'', ''fab fa-php''),
     (''html'', ''fab fa-html5''),
     (''css'', ''fab fa-css3-alt''),
     (''scss'', ''fab fa-sass''),
     (''sass'', ''fab fa-sass''),
     (''less'', ''fab fa-less''),
     (''react'', ''fab fa-react''),
     (''jsx'', ''fab fa-react''),
     (''vue'', ''fab fa-vuejs''),
     (''angular'', ''fab fa-angular''),
     (''node'', ''fab fa-node-js''),
     (''nodejs'', ''fab fa-node-js''),
     (''npm'', ''fab fa-npm''),
     (''yarn'', ''fab fa-yarn''),
     (''docker'', ''fab fa-docker''),
     (''git'', ''fab fa-git-alt''),
     (''github'', ''fab fa-github''),
     (''gitlab'', ''fab fa-gitlab''),
     (''bitbucket'', ''fab fa-bitbucket''),
     (''go'', ''fas fa-code''),
     (''golang'', ''fas fa-code''),
     (''rust'', ''fas fa-cog''),
     (''cpp'', ''fas fa-code''),
     (''c++'', ''fas fa-code''),
     (''c'', ''fas fa-code''),
     (''csharp'', ''fas fa-code''),
     (''c#'', ''fas fa-code''),
     (''swift'', ''fab fa-swift''),
     (''kotlin'', ''fas fa-code''),
     (''ruby'', ''fas fa-gem''),
     (''rb'', ''fas fa-gem''),
     (''shell'', ''fas fa-terminal''),
     (''bash'', ''fas fa-terminal''),
     (''sh'', ''fas fa-terminal''),
     (''powershell'', ''fas fa-terminal''),
     (''sql'', ''fas fa-database''),
     (''mysql'', ''fas fa-database''),
     (''postgresql'', ''fas fa-database''),
     (''mongodb'', ''fas fa-database''),
     (''json'', ''fas fa-file-code''),
     (''xml'', ''fas fa-code''),
     (''yaml'', ''fas fa-file-code''),
     (''yml'', ''fas fa-file-code''),
     (''toml'', ''fas fa-file-code''),
     (''ini'', ''fas fa-file-code''),
     (''markdown'', ''fab fa-markdown''),
     (''md'', ''fab fa-markdown''),
     (''text'', ''fas fa-file-alt''),
     (''txt'', ''fas fa-file-alt''),
     (''default'', ''fas fa-code'')]"

definition languageIconNode :: "string list \<Rightarrow> codeUnits \<Rightarrow> node" where
  "languageIconNode iconTokens title =
     Node ''element'' (Some ''div'') None (Some [(''className'', Tokens [''language-icon''])])
       None None
       [Node ''element'' (Some ''i'') None
          (Some [(''className'', Tokens iconTokens), (''title'', Wide title)]) None None []]"

text \<open>
  The body of \<^verbatim>\<open>if (languageClass)\<close>. \<open>languageClass\<close> starts with \<^verbatim>\<open>language-\<close>, so
  replacing the first occurrence of that string by the empty string drops the prefix. The
  statements run in the order of the source; whatever was assigned before an exception is
  lost with the tree, since the exception ends the whole pass.
\<close>

definition addLanguageIcon :: "node \<Rightarrow> string \<Rightarrow> error + node" where
  "addLanguageIcon node languageClass =
     (let language = toLowerCase (drop (length ''language-'') languageClass);
          iconClass = orElse (getProperty languageIcons language)
                             (getProperty languageIcons ''default'');
          ps = (case properties node of None \<Rightarrow> [] | Some p \<Rightarrow> p)
      in case classArray ps of
           Inl e \<Rightarrow> Inl e
         | Inr className \<Rightarrow>
             (let classes = (case className of None \<Rightarrow> [] | Some cls \<Rightarrow> cls);
                  ps' = setProperty ''data-language'' (Str language)
                          (setProperty ''className'' (Tokens (classes @ [''has-language''])) ps)
              in case splitValue iconClass of
                   Inl e \<Rightarrow> Inl e
                 | Inr iconTokens \<Rightarrow>
                     Inr (Node (type node) (tagName node) (name node) (Some ps')
                            (dataValue node) (nodeValue node)
                            (languageIconNode iconTokens (toUpperCase language)
                               # children node))))"

text \<open>The callback that \<^verbatim>\<open>rehypeCodeLanguageIcons\<close> hands to \<^verbatim>\<open>visit\<close>.\<close>

definition languageIconCallback :: "node \<Rightarrow> error + node" where
  "languageIconCallback node =
     (if type node = ''element'' \<and> tagName node = Some ''pre'' then
        (case find (\<lambda>child. type child = ''element'' \<and> tagName child = Some ''code'')
                (children node) of
           None \<Rightarrow> Inr node
         | Some codeElement \<Rightarrow>
             (case properties codeElement of
                None \<Rightarrow> Inr node
              | Some cps \<Rightarrow>
                  (case classArray cps of
                     Inl e \<Rightarrow> Inl e
                   | Inr None \<Rightarrow> Inr node
                   | Inr (Some cls) \<Rightarrow>
                       (case find (\<lambda>c. startsWith c ''language-'') cls of
                          None \<Rightarrow> Inr node
                        | Some languageClass \<Rightarrow> addLanguageIcon node languageClass))))
      else Inr node)"

text \<open>
  \<^verbatim>\<open>visit(node, callback)\<close> with this callback: the callback runs on the node, then
  \<^verbatim>\<open>visit\<close> runs on each child the node has afterwards, the prepended icon included. An
  exception ends the pass. The weight of a tree bounds the work left.
\<close>

fun iconWeight :: "node \<Rightarrow> nat" where
  "iconWeight (Node t tg nm ps dv v cs) =
     (if t = ''element'' \<and> tg = Some ''pre'' then 6 else 2) + sum_list (map iconWeight cs)"

lemma iconWeight_pos: "2 \<le> iconWeight n"
  by (cases n) simp

lemma languageIconCallback_weight:
  "languageIconCallback n = Inr n' \<Longrightarrow> sum_list (map iconWeight (children n')) + 2 \<le> iconWeight n"
  by (cases n) (auto simp: languageIconCallback_def addLanguageIcon_def languageIconNode_def Let_def
      split: if_splits option.splits sum.splits)

function visitIcons :: "node \<Rightarrow> error + node"
  and visitIconsList :: "node list \<Rightarrow> error + node list"
where
  "visitIcons n =
     (case languageIconCallback n of
        Inl e \<Rightarrow> Inl e
      | Inr n' \<Rightarrow>
          (case visitIconsList (children n') of
             Inl e \<Rightarrow> Inl e
           | Inr cs \<Rightarrow> Inr (Node (type n') (tagName n') (name n') (properties n')
                               (dataValue n') (nodeValue n') cs)))"
| "visitIconsList [] = Inr []"
| "visitIconsList (c # cs) =
     (case visitIcons c of
        Inl e \<Rightarrow> Inl e
      | Inr c' \<Rightarrow> (case visitIconsList cs of Inl e \<Rightarrow> Inl e | Inr cs' \<Rightarrow> Inr (c' # cs')))"
  by pat_completeness auto
termination
proof (relation "measure (\<lambda>x. case x of Inl n \<Rightarrow> iconWeight n
                                     | Inr cs \<Rightarrow> Suc (sum_list (map iconWeight cs)))")
  show "wf (measure (\<lambda>x. case x of Inl n \<Rightarrow> iconWeight n
                                     | Inr cs \<Rightarrow> Suc (sum_list (map iconWeight cs))))"
    by simp
next
  fix n n'
  assume "languageIconCallback n = Inr n'"
  then show "(Inr (children n'), Inl n)
      \<in> measure (\<lambda>x. case x of Inl n \<Rightarrow> iconWeight n
                              | Inr cs \<Rightarrow> Suc (sum_list (map iconWeight cs)))"
    using languageIconCallback_weight[of n n'] by simp
next
  fix c :: node and cs :: "node list"
  show "(Inl c, Inr (c # cs))
      \<in> measure (\<lambda>x. case x of Inl n \<Rightarrow> iconWeight n
                              | Inr cs \<Rightarrow> Suc (sum_list (map iconWeight cs)))"
    by simp
next
  fix c :: node and cs :: "node list" and c' :: node
  show "(Inr cs, Inr (c # cs))
      \<in> measure (\<lambda>x. case x of Inl n \<Rightarrow> iconWeight n
                              | Inr cs \<Rightarrow> Suc (sum_list (map iconWeight cs)))"
    using iconWeight_pos[of c] by simp
qed

definition rehypeCodeLanguageIcons :: "node \<Rightarrow> error + node" where
  "rehypeCodeLanguageIcons tree = visitIcons tree"

subsection \<open>Admonitions (content.js 227--284)\<close>

definition admonitionTypes :: "string list" where
  "admonitionTypes =
     [''note'', ''tip'', ''important'', ''success'', ''warning'', ''caution'', ''danger'',
      ''error'']"

definition admonitionIcons :: "(string \<times> string) list" where
  "admonitionIcons =
     [(''note'', ''fas fa-info-circle''),
      (''tip'', ''fas fa-lightbulb''),
      (''important'', ''fas fa-exclamation-circle''),
      (''success'', ''fas fa-check-circle''),
      (''warning'', ''fas fa-exclamation-triangle''),
      (''caution'', ''fas fa-exclamation-triangle''),
      (''danger'', ''fas fa-skull-crossbones''),
      (''error'', ''fas fa-times-circle'')]"

text \<open>\<^verbatim>\<open>type.charAt(0).toUpperCase() + type.slice(1)\<close>.\<close>

definition capitalize :: "string \<Rightarrow> codeUnits" where
  "capitalize s = toUpperCase (take 1 s) @ units (drop 1 s)"

text \<open>
  The callback that \<^verbatim>\<open>rehypeAdmonitions\<close> hands to \<^verbatim>\<open>visit\<close>. The node is converted
  in place: \<^verbatim>\<open>type\<close>, \<^verbatim>\<open>tagName\<close>, \<^verbatim>\<open>properties\<close> and \<^verbatim>\<open>children\<close> are assigned, the
  other fields stay. \<^verbatim>\<open>node.name.toLowerCase()\<close> raises on a directive without a name.
  \<^verbatim>\<open>node.children[0]?.data?.value || capitalized\<close> is the data value of the first child
  when there is a first child, it has one and the value is not the empty string, and the
  capitalized type otherwise.
\<close>

definition admonitionCallback :: "node \<Rightarrow> error + node" where
  "admonitionCallback node =
     (if type node = ''containerDirective'' then
        (case name node of
           None \<Rightarrow> Inl TypeError
         | Some nm \<Rightarrow>
             (let kind = toLowerCase nm
              in if kind \<in> set admonitionTypes then
                   (let titleText =
                          (case children node of
                             [] \<Rightarrow> capitalize kind
                           | c # _ \<Rightarrow>
                               (case dataValue c of
                                  None \<Rightarrow> capitalize kind
                                | Some v \<Rightarrow> if v = [] then capitalize kind else units v));
                        titleIconClass = orElse (getProperty admonitionIcons kind)
                                                (StringValue ''fas fa-info-circle'')
                    in case splitValue titleIconClass of
                         Inl e \<Rightarrow> Inl e
                       | Inr iconTokens \<Rightarrow>
                           (let titleNode =
                                  Node ''element'' (Some ''div'') None
                                    (Some [(''className'', Tokens [''admonition-title''])])
                                    None None
                                    [Node ''element'' (Some ''i'') None
                                       (Some [(''className'', Tokens iconTokens)]) None None [],
                                     Node ''text'' None None None None
                                       (Some (units '' '' @ titleText)) []];
                                contentNode =
                                  Node ''element'' (Some ''div'') None
                                    (Some [(''className'', Tokens [''admonition-content''])])
                                    None None (drop 1 (children node))
                            in Inr (Node ''element'' (Some ''div'') (name node)
                                      (Some [(''className'',
                                              Tokens [''admonition'', ''admonition-'' @ kind])])
                                      (dataValue node) (nodeValue node)
                                      [titleNode, contentNode])))
                 else Inr node))
      else Inr node)"

text \<open>
  \<^verbatim>\<open>visit\<close> with this callback goes on into the two containers of a converted node, and
  so into the body's children.
\<close>

fun admonitionWeight :: "node \<Rightarrow> nat" where
  "admonitionWeight (Node t tg nm ps dv v cs) =
     (if t = ''containerDirective'' then 12 else 2) + sum_list (map admonitionWeight cs)"

lemma admonitionWeight_pos: "2 \<le> admonitionWeight n"
  by (cases n) simp

lemma sum_list_drop_le: "sum_list (map f (drop k xs)) \<le> sum_list (map (f :: 'a \<Rightarrow> nat) xs)"
proof -
  have "sum_list (map f xs) = sum_list (map f (take k xs)) + sum_list (map f (drop k xs))"
    by (metis append_take_drop_id map_append sum_list_append)
  then show ?thesis by simp
qed

lemma admonitionCallback_weight:
  "admonitionCallback n = Inr n'
     \<Longrightarrow> sum_list (map admonitionWeight (children n')) + 2 \<le> admonitionWeight n"
proof (cases n)
  case (Node t tg nm ps dv v cs)
  assume a: "admonitionCallback n = Inr n'"
  have d: "sum_list (map admonitionWeight (drop 1 cs)) \<le> sum_list (map admonitionWeight cs)"
    by (rule sum_list_drop_le)
  show ?thesis
    using a d unfolding Node
    by (auto simp: admonitionCallback_def Let_def
        split: if_splits option.splits sum.splits)
qed

function visitAdmonitions :: "node \<Rightarrow> error + node"
  and visitAdmonitionsList :: "node list \<Rightarrow> error + node list"
where
  "visitAdmonitions n =
     (case admonitionCallback n of
        Inl e \<Rightarrow> Inl e
      | Inr n' \<Rightarrow>
          (case visitAdmonitionsList (children n') of
             Inl e \<Rightarrow> Inl e
           | Inr cs \<Rightarrow> Inr (Node (type n') (tagName n') (name n') (properties n')
                               (dataValue n') (nodeValue n') cs)))"
| "visitAdmonitionsList [] = Inr []"
| "visitAdmonitionsList (c # cs) =
     (case visitAdmonitions c of
        Inl e \<Rightarrow> Inl e
      | Inr c' \<Rightarrow> (case visitAdmonitionsList cs of Inl e \<Rightarrow> Inl e | Inr cs' \<Rightarrow> Inr (c' # cs')))"
  by pat_completeness auto
termination
proof (relation "measure (\<lambda>x. case x of Inl n \<Rightarrow> admonitionWeight n
                                     | Inr cs \<Rightarrow> Suc (sum_list (map admonitionWeight cs)))")
  show "wf (measure (\<lambda>x. case x of Inl n \<Rightarrow> admonitionWeight n
                                     | Inr cs \<Rightarrow> Suc (sum_list (map admonitionWeight cs))))"
    by simp
next
  fix n n'
  assume "admonitionCallback n = Inr n'"
  then show "(Inr (children n'), Inl n)
      \<in> measure (\<lambda>x. case x of Inl n \<Rightarrow> admonitionWeight n
                              | Inr cs \<Rightarrow> Suc (sum_list (map admonitionWeight cs)))"
    using admonitionCallback_weight[of n n'] by simp
next
  fix c :: node and cs :: "node list"
  show "(Inl c, Inr (c # cs))
      \<in> measure (\<lambda>x. case x of Inl n \<Rightarrow> admonitionWeight n
                              | Inr cs \<Rightarrow> Suc (sum_list (map admonitionWeight cs)))"
    by simp
next
  fix c :: node and cs :: "node list" and c' :: node
  show "(Inr cs, Inr (c # cs))
      \<in> measure (\<lambda>x. case x of Inl n \<Rightarrow> admonitionWeight n
                              | Inr cs \<Rightarrow> Suc (sum_list (map admonitionWeight cs)))"
    using admonitionWeight_pos[of c] by simp
qed

definition rehypeAdmonitions :: "node \<Rightarrow> error + node" where
  "rehypeAdmonitions tree = visitAdmonitions tree"

subsection \<open>The admonition decorator as the specification words it\<close>

text \<open>
  The recognized kinds, each with its capitalized name and the class tokens of its icon.
  A directive is recognized when its lower-cased name is one of them. It becomes a
  \<^verbatim>\<open>div\<close> element with the class \<^verbatim>\<open>admonition\<close> and the class of its kind and with
  exactly two children: the title container, holding the icon element and the text node of
  a space and the title text, and the body container, holding the children from the second
  on, decorated in turn. The title text is the data value of the first child when it has
  one that is not empty, and the capitalized name otherwise. Any other node keeps its
  fields, with its children decorated.
\<close>

definition admonitionKinds :: "(string \<times> string \<times> string list) list" where
  "admonitionKinds =
     [(''note'', ''Note'', [''fas'', ''fa-info-circle'']),
      (''tip'', ''Tip'', [''fas'', ''fa-lightbulb'']),
      (''important'', ''Important'', [''fas'', ''fa-exclamation-circle'']),
      (''success'', ''Success'', [''fas'', ''fa-check-circle'']),
      (''warning'', ''Warning'', [''fas'', ''fa-exclamation-triangle'']),
      (''caution'', ''Caution'', [''fas'', ''fa-exclamation-triangle'']),
      (''danger'', ''Danger'', [''fas'', ''fa-skull-crossbones'']),
      (''error'', ''Error'', [''fas'', ''fa-times-circle''])]"

definition recognizedKind :: "string \<Rightarrow> string option \<Rightarrow> (string \<times> string \<times> string list) option" where
  "recognizedKind t nm =
     (if t = ''containerDirective'' then
        (case nm of
           None \<Rightarrow> None
         | Some n \<Rightarrow> (case map_of admonitionKinds (toLowerCase n) of
                        None \<Rightarrow> None
                      | Some (capitalized, iconTokens) \<Rightarrow>
                          Some (toLowerCase n, capitalized, iconTokens)))
      else None)"

definition titleOf :: "node list \<Rightarrow> string \<Rightarrow> string" where
  "titleOf cs capitalized =
     (case cs of
        [] \<Rightarrow> capitalized
      | c # _ \<Rightarrow> (case dataValue c of
                     None \<Rightarrow> capitalized
                   | Some v \<Rightarrow> if v = [] then capitalized else v))"

fun admonitionSpec :: "node \<Rightarrow> node" where
  "admonitionSpec (Node t tg nm ps dv v cs) =
     (case recognizedKind t nm of
        Some (kind, capitalized, iconTokens) \<Rightarrow>
          Node ''element'' (Some ''div'') nm
            (Some [(''className'', Tokens [''admonition'', ''admonition-'' @ kind])]) dv v
            [Node ''element'' (Some ''div'') None
               (Some [(''className'', Tokens [''admonition-title''])]) None None
               [Node ''element'' (Some ''i'') None
                  (Some [(''className'', Tokens iconTokens)]) None None [],
                Node ''text'' None None None None
                  (Some (units ('' '' @ titleOf cs capitalized))) []],
             Node ''element'' (Some ''div'') None
               (Some [(''className'', Tokens [''admonition-content''])]) None None
               (case cs of [] \<Rightarrow> [] | first # others \<Rightarrow> map admonitionSpec others)]
      | None \<Rightarrow> Node t tg nm ps dv v (map admonitionSpec cs))"

text \<open>Every directive of the tree has a name, as the directive parser delivers them.\<close>

fun directivesNamed :: "node \<Rightarrow> bool" where
  "directivesNamed (Node t tg nm ps dv v cs) =
     ((t = ''containerDirective'' \<longrightarrow> nm \<noteq> None) \<and> (\<forall>c\<in>set cs. directivesNamed c))"

declare visitIcons.simps [simp del] visitAdmonitions.simps [simp del]

section \<open>Activation (content.js 339--453, addTag.js 153--167)\<close>

text \<open>
  What \<^verbatim>\<open>renderMarkdown\<close> reads and writes of the page. \<open>markup\<close> is what the document
  holds: the browser's own rendering of the file, or what the function assigned through
  \<^verbatim>\<open>innerHTML\<close>. The remaining fields are the display style of the body, whether the
  stylesheet link has been appended to the head, and whether the copy buttons have been
  inserted into the code blocks.
\<close>

datatype markup =
    AsLoaded
  | LoadingMessage
  | RenderedPage string string
  | ErrorPanel

record document =
  pathname :: string
  title :: string
  markup :: markup
  bodyDisplay :: string
  styleLink :: bool
  copyButtons :: bool

text \<open>
  What the call finds around it: the text content of the first \<^verbatim>\<open>pre\<close> element at
  entry (\<open>None\<close> without such an element), whether the modules load, and the assembled
  processor, which returns the HTML or raises (\<open>None\<close>).
\<close>

record env =
  preTextContent :: "string option"
  modulesLoad :: bool
  process :: "string \<Rightarrow> string option"

text \<open>What the call does besides writing the document.\<close>

datatype effect =
    ConsoleLog string
  | ConsoleError
  | WindowStop
  | SetTimeout nat

definition isMarkdownFile :: "string \<Rightarrow> bool" where
  "isMarkdownFile path =
     (endsWith path ''.md'' \<or> endsWith path ''.markdown'' \<or> endsWith path ''.mdown'')"

text \<open>\<^verbatim>\<open>pathname.split("/").pop()\<close>: what follows the last slash.\<close>

definition lastSegment :: "string \<Rightarrow> string" where
  "lastSegment path = rev (takeWhile (\<lambda>ch. ch \<noteq> CHR ''/'') (rev path))"

text \<open>
  \<^verbatim>\<open>document.title || window.location.pathname.split("/").pop() || "Markdown Preview"\<close>.
\<close>

definition pageTitle :: "document \<Rightarrow> string" where
  "pageTitle doc =
     (if title doc \<noteq> [] then title doc
      else if lastSegment (pathname doc) \<noteq> [] then lastSegment (pathname doc)
      else ''Markdown Preview'')"

text \<open>
  The \<^verbatim>\<open>catch\<close> block: it logs, shows the body and assigns the error panel.
\<close>

definition renderError :: "document \<Rightarrow> effect list \<Rightarrow> document \<times> effect list" where
  "renderError doc effects =
     (doc\<lparr>bodyDisplay := ''block'', markup := ErrorPanel\<rparr>, effects @ [ConsoleError])"

text \<open>
  The function, run to its end; the callback handed to \<^verbatim>\<open>setTimeout\<close> is recorded, not
  run. The two tests come first and in the order of the source, and the first assignment
  to the document follows them.
\<close>

definition renderMarkdown :: "env \<Rightarrow> document \<Rightarrow> document \<times> effect list" where
  "renderMarkdown e doc =
     (case preTextContent e of
        None \<Rightarrow> (doc, [ConsoleLog ''zysays: No markdown content found.''])
      | Some rawMarkdown \<Rightarrow>
          if rawMarkdown = [] then (doc, [ConsoleLog ''zysays: No markdown content found.''])
          else if \<not> isMarkdownFile (pathname doc)
          then (doc, [ConsoleLog ''zysays: Not a markdown file.''])
          else
            (let doc1 = doc\<lparr>bodyDisplay := ''none''\<rparr>;
                 doc2 = doc1\<lparr>markup := LoadingMessage\<rparr>
             in if \<not> modulesLoad e then renderError doc2 [ConsoleError]
                else (case process e rawMarkdown of
                        None \<Rightarrow> renderError doc2 []
                      | Some renderedHtml \<Rightarrow>
                          (let doc3 = doc2\<lparr>markup := RenderedPage (pageTitle doc2) renderedHtml,
                                            bodyDisplay := ''''\<rparr>;
                               doc4 = doc3\<lparr>styleLink := True\<rparr>;
                               doc5 = doc4\<lparr>copyButtons := True\<rparr>
                           in (doc5\<lparr>bodyDisplay := ''block''\<rparr>,
                               [WindowStop, SetTimeout 100])))))"

text \<open>
  \<^verbatim>\<open>initializeTextTransformations\<close> of addTag.js: what it arranges for
  \<^verbatim>\<open>applySafeTextTransformations\<close>, given the path and whether the document is still
  loading.
\<close>

datatype schedule = NotScheduled | OnDOMContentLoaded | Immediately

definition initializeTextTransformations :: "string \<Rightarrow> bool \<Rightarrow> schedule" where
  "initializeTextTransformations path loading =
     (if isMarkdownFile path then (if loading then OnDOMContentLoaded else Immediately)
      else NotScheduled)"

section \<open>Properties of the matcher\<close>

lemma singleLine_simps:
  "singleLine []" "singleLine (x # xs) \<longleftrightarrow> \<not> isLineTerminator x \<and> singleLine xs"
  by (auto simp: singleLine_def)

lemma startsWith_iff: "startsWith s p \<longleftrightarrow> (\<exists>r. s = p @ r)"
  unfolding startsWith_def
  by (metis append_eq_conv_conj append_take_drop_id)

lemma startsWith_drop: "startsWith s p \<Longrightarrow> s = p @ drop (length p) s"
  unfolding startsWith_def by (metis append_take_drop_id)

lemma lazyClose_Some_iff:
  "lazyClose c s = Some (mid, rest) \<longleftrightarrow>
     s = mid @ c @ rest \<and> singleLine mid \<and> (\<forall>k<length mid. \<not> startsWith (drop k s) c)"
proof (induction s arbitrary: mid)
  case Nil
  show ?case by (auto simp: singleLine_simps)
next
  case (Cons x xs)
  show ?case
  proof (cases "startsWith (x # xs) c")
    case True
    have eq: "x # xs = c @ drop (length c) (x # xs)"
      using True by (rule startsWith_drop)
    show ?thesis
    proof (cases mid)
      case Nil
      have "rest = drop (length c) (x # xs) \<longleftrightarrow> x # xs = c @ rest"
        using eq by (metis append_eq_conv_conj)
      then show ?thesis using True Nil by (auto simp: singleLine_simps)
    next
      case (Cons m ms)
      have "\<not> (\<forall>k<length mid. \<not> startsWith (drop k (x # xs)) c)"
        using True Cons by (intro notI) (drule spec[of _ 0], simp)
      then show ?thesis using True Cons by simp
    qed
  next
    case False
    note nsw = False
    show ?thesis
    proof (cases mid)
      case Nil
      have "x # xs \<noteq> c @ rest" using nsw by (auto simp: startsWith_iff)
      then show ?thesis using nsw Nil
        by (simp split: option.splits)
    next
      case (Cons m ms)
      have q: "(\<forall>k<Suc (length ms). \<not> startsWith (drop k (x # xs)) c) \<longleftrightarrow>
            (\<forall>k<length ms. \<not> startsWith (drop k xs) c)"
        using nsw by (auto simp: less_Suc_eq_0_disj)
      show ?thesis
        unfolding Cons using nsw Cons.IH[of ms] q
        by (auto simp: singleLine_simps split: option.splits)
    qed
  qed
qed

lemma lazyClose_None_iff:
  "lazyClose c s = None \<longleftrightarrow> \<not> (\<exists>mid rest. s = mid @ c @ rest \<and> singleLine mid)"
proof (induction s)
  case Nil
  show ?case by (auto simp: singleLine_simps)
next
  case (Cons x xs)
  show ?case
  proof (cases "startsWith (x # xs) c")
    case True
    then obtain r where "x # xs = [] @ c @ r" by (auto simp: startsWith_iff)
    moreover have "singleLine []" by (simp add: singleLine_simps)
    ultimately have "\<exists>mid rest. x # xs = mid @ c @ rest \<and> singleLine mid" by blast
    then show ?thesis using True by simp
  next
    case False
    have "(\<exists>mid rest. x # xs = mid @ c @ rest \<and> singleLine mid) \<longleftrightarrow>
          (\<not> isLineTerminator x \<and> (\<exists>mid rest. xs = mid @ c @ rest \<and> singleLine mid))"
    proof
      assume "\<exists>mid rest. x # xs = mid @ c @ rest \<and> singleLine mid"
      then obtain mid rest where m: "x # xs = mid @ c @ rest" "singleLine mid" by blast
      with False have "mid \<noteq> []" by (auto simp: startsWith_iff)
      then obtain ms where "mid = x # ms" using m by (cases mid) auto
      with m show "\<not> isLineTerminator x \<and> (\<exists>mid rest. xs = mid @ c @ rest \<and> singleLine mid)"
        by (auto simp: singleLine_simps)
    next
      assume "\<not> isLineTerminator x \<and> (\<exists>mid rest. xs = mid @ c @ rest \<and> singleLine mid)"
      then obtain mid rest where "xs = mid @ c @ rest" "singleLine mid" "\<not> isLineTerminator x" by blast
      then have "x # xs = (x # mid) @ c @ rest \<and> singleLine (x # mid)" by (simp add: singleLine_simps)
      then show "\<exists>mid rest. x # xs = mid @ c @ rest \<and> singleLine mid" by blast
    qed
    then show ?thesis using False Cons.IH by (cases "lazyClose c xs") auto
  qed
qed

lemma spanStarts_iff:
  "spanStarts opn cls s \<longleftrightarrow> (\<exists>mid rest. s = opn @ mid @ cls @ rest \<and> singleLine mid)"
proof
  assume "spanStarts opn cls s"
  then obtain k where o: "startsWith s opn"
    and c: "startsWith (drop (length opn + k) s) cls"
    and l: "singleLine (take k (drop (length opn) s))"
    by (auto simp: spanStarts_def)
  let ?t = "drop (length opn) s"
  from o have s: "s = opn @ ?t" by (rule startsWith_drop)
  from c have "startsWith (drop k ?t) cls" by (simp add: add.commute)
  then obtain r where "drop k ?t = cls @ r" by (auto simp: startsWith_iff)
  then have "?t = take k ?t @ cls @ r" by (metis append_take_drop_id)
  with s l show "\<exists>mid rest. s = opn @ mid @ cls @ rest \<and> singleLine mid" by metis
next
  assume "\<exists>mid rest. s = opn @ mid @ cls @ rest \<and> singleLine mid"
  then obtain mid rest where s: "s = opn @ mid @ cls @ rest" and l: "singleLine mid" by blast
  have "startsWith s opn" using s by (simp add: startsWith_def)
  moreover have "length mid \<in> {0..<Suc (length s)}" using s by simp
  moreover have "startsWith (drop (length opn + length mid) s) cls"
    using s by (simp add: startsWith_def)
  moreover have "singleLine (take (length mid) (drop (length opn) s))" using s l by simp
  ultimately show "spanStarts opn cls s" unfolding spanStarts_def by blast
qed

lemma spanStarts_lazyClose:
  "spanStarts opn cls s \<longleftrightarrow> startsWith s opn \<and> lazyClose cls (drop (length opn) s) \<noteq> None"
proof -
  have "(\<exists>mid rest. s = opn @ mid @ cls @ rest \<and> singleLine mid) \<longleftrightarrow>
        startsWith s opn \<and> (\<exists>mid rest. drop (length opn) s = mid @ cls @ rest \<and> singleLine mid)"
    unfolding startsWith_iff by (metis append_eq_conv_conj)
  then show ?thesis by (simp add: spanStarts_iff lazyClose_None_iff)
qed

lemma regexReplace_copy:
  "\<not> spanStarts opn cls (x # xs) \<Longrightarrow>
     regexReplace opn cls A B (x # xs) = x # regexReplace opn cls A B xs"
  by (auto simp: spanStarts_lazyClose split: option.splits)

lemma regexReplace_spanFree:
  "spanFree opn cls s0 \<Longrightarrow> regexReplace opn cls A B s0 = s0"
proof (induction s0)
  case Nil
  show ?case by simp
next
  case (Cons x xs)
  have "\<not> spanStarts opn cls (x # xs)"
  proof -
    have "0 \<in> {0..<length (x # xs)}" by simp
    then have "\<not> spanStarts opn cls (drop 0 (x # xs))"
      using Cons.prems unfolding spanFree_def by blast
    then show ?thesis by simp
  qed
  moreover have "spanFree opn cls xs"
    unfolding spanFree_def
  proof
    fix i assume "i \<in> {0..<length xs}"
    then have "Suc i \<in> {0..<length (x # xs)}" by simp
    then have "\<not> spanStarts opn cls (drop (Suc i) (x # xs))"
      using Cons.prems unfolding spanFree_def by blast
    then show "\<not> spanStarts opn cls (drop i xs)" by simp
  qed
  ultimately show ?case using Cons.IH by (simp add: regexReplace_copy del: regexReplace.simps)
qed

lemma startsWith_append_long:
  "length c \<le> length u \<Longrightarrow> startsWith (u @ r) c = startsWith u c"
  by (simp add: startsWith_def)

lemma regexReplace_at_span:
  assumes "opn \<noteq> []" "singleLine mid"
    and "\<forall>k\<in>{0..<length mid}. \<not> startsWith (drop k (mid @ cls)) cls"
  shows "regexReplace opn cls A B (opn @ mid @ cls @ rest)
         = A @ mid @ B @ regexReplace opn cls A B rest"
proof -
  have "\<forall>k<length mid. \<not> startsWith (drop k (mid @ cls @ rest)) cls"
  proof (intro allI impI)
    fix k assume k: "k < length mid"
    then have n: "\<not> startsWith (drop k (mid @ cls)) cls" using assms(3) by simp
    have d: "drop k (mid @ cls @ rest) = drop k (mid @ cls) @ rest" using k by simp
    have "length cls \<le> length (drop k (mid @ cls))" using k by simp
    then have "startsWith (drop k (mid @ cls) @ rest) cls = startsWith (drop k (mid @ cls)) cls"
      by (rule startsWith_append_long)
    with n have "\<not> startsWith (drop k (mid @ cls) @ rest) cls" by blast
    then show "\<not> startsWith (drop k (mid @ cls @ rest)) cls"
      unfolding d .
  qed
  then have lc: "lazyClose cls (mid @ cls @ rest) = Some (mid, rest)"
    using assms(2) by (simp add: lazyClose_Some_iff)
  obtain x xs where e: "opn @ mid @ cls @ rest = x # xs" using assms(1) by (cases opn) auto
  have "startsWith (x # xs) opn" unfolding e[symmetric] by (simp add: startsWith_def)
  moreover have "drop (length opn) (x # xs) = mid @ cls @ rest" unfolding e[symmetric] by simp
  ultimately have "regexReplace opn cls A B (x # xs) = A @ mid @ B @ regexReplace opn cls A B rest"
    using assms(1) lc by simp
  then show ?thesis by (simp add: e)
qed

lemma regexReplace_firstSpan:
  assumes "opn \<noteq> []" "firstSpan opn cls s0 pre mid rest"
  shows "regexReplace opn cls A B s0 = pre @ A @ mid @ B @ regexReplace opn cls A B rest"
  using assms(2)
proof (induction pre arbitrary: s0)
  case Nil
  then show ?case using regexReplace_at_span[OF assms(1)] by (simp add: firstSpan_def)
next
  case (Cons p ps)
  let ?t = "ps @ opn @ mid @ cls @ rest"
  have t: "s0 = p # ?t" using Cons.prems by (simp add: firstSpan_def)
  have "\<not> spanStarts opn cls (p # ?t)"
  proof -
    have "0 \<in> {0..<length (p # ps)}" by simp
    then have "\<not> spanStarts opn cls (drop 0 s0)"
      using Cons.prems unfolding firstSpan_def by blast
    then show ?thesis by (simp add: t)
  qed
  moreover have "\<forall>i\<in>{0..<length ps}. \<not> spanStarts opn cls (drop i ?t)"
  proof
    fix i assume "i \<in> {0..<length ps}"
    then have "Suc i \<in> {0..<length (p # ps)}" by simp
    then have "\<not> spanStarts opn cls (drop (Suc i) s0)"
      using Cons.prems unfolding firstSpan_def by blast
    then show "\<not> spanStarts opn cls (drop i ?t)" by (simp add: t)
  qed
  then have "firstSpan opn cls ?t ps mid rest"
    using Cons.prems unfolding firstSpan_def t by simp
  ultimately show ?case using Cons.IH[of ?t] unfolding t
    by (simp add: regexReplace_copy del: regexReplace.simps)
qed

lemma spanFree_or_firstSpan:
  assumes "opn \<noteq> []"
  shows "spanFree opn cls s \<or> (\<exists>pre mid rest. firstSpan opn cls s pre mid rest)"
proof (induction s)
  case Nil
  show ?case by (simp add: spanFree_def)
next
  case (Cons x xs)
  show ?case
  proof (cases "spanStarts opn cls (x # xs)")
    case True
    then have sw: "startsWith (x # xs) opn"
      and "lazyClose cls (drop (length opn) (x # xs)) \<noteq> None"
      by (simp_all add: spanStarts_lazyClose)
    then obtain mid rest where lc: "lazyClose cls (drop (length opn) (x # xs)) = Some (mid, rest)"
      by fastforce
    from lc[unfolded lazyClose_Some_iff]
    have d: "drop (length opn) (x # xs) = mid @ cls @ rest" and sl: "singleLine mid"
      and sh: "\<forall>k<length mid. \<not> startsWith (drop k (drop (length opn) (x # xs))) cls"
      by blast+
    have e: "x # xs = [] @ opn @ mid @ cls @ rest"
      using startsWith_drop[OF sw] d by simp
    have "\<forall>k\<in>{0..<length mid}. \<not> startsWith (drop k (mid @ cls)) cls"
    proof
      fix k assume "k \<in> {0..<length mid}"
      then have k: "k < length mid" by simp
      then have n: "\<not> startsWith (drop k (mid @ cls @ rest)) cls" using sh unfolding d by blast
      have dd: "drop k (mid @ cls @ rest) = drop k (mid @ cls) @ rest" using k by simp
      have "length cls \<le> length (drop k (mid @ cls))" using k by simp
      then have "startsWith (drop k (mid @ cls) @ rest) cls = startsWith (drop k (mid @ cls)) cls"
        by (rule startsWith_append_long)
      with n show "\<not> startsWith (drop k (mid @ cls)) cls" unfolding dd by blast
    qed
    then have "firstSpan opn cls (x # xs) [] mid rest"
      unfolding firstSpan_def using e sl by simp
    then show ?thesis by blast
  next
    case False
    from Cons.IH show ?thesis
    proof
      assume f: "spanFree opn cls xs"
      have "spanFree opn cls (x # xs)"
        unfolding spanFree_def
      proof
        fix i assume "i \<in> {0..<length (x # xs)}"
        show "\<not> spanStarts opn cls (drop i (x # xs))"
        proof (cases i)
          case 0
          then show ?thesis using False by simp
        next
          case (Suc j)
          then have "j \<in> {0..<length xs}" using \<open>i \<in> {0..<length (x # xs)}\<close> by simp
          then show ?thesis using f Suc unfolding spanFree_def by simp
        qed
      qed
      then show ?thesis by blast
    next
      assume "\<exists>pre mid rest. firstSpan opn cls xs pre mid rest"
      then obtain pre mid rest where f: "firstSpan opn cls xs pre mid rest" by blast
      have "\<forall>i\<in>{0..<length (x # pre)}. \<not> spanStarts opn cls (drop i (x # xs))"
      proof
        fix i assume i: "i \<in> {0..<length (x # pre)}"
        show "\<not> spanStarts opn cls (drop i (x # xs))"
        proof (cases i)
          case 0
          then show ?thesis using False by simp
        next
          case (Suc j)
          then have "j \<in> {0..<length pre}" using i by simp
          then have "\<not> spanStarts opn cls (drop j xs)" using f unfolding firstSpan_def by blast
          then show ?thesis using Suc by simp
        qed
      qed
      then have "firstSpan opn cls (x # xs) (x # pre) mid rest"
        using f unfolding firstSpan_def by simp
      then show ?thesis by blast
    qed
  qed
qed

lemma assemble_Cons_char:
  "\<exists>segs' tail'. x # assemble L R segs tail = assemble L R segs' tail'
      \<and> x # assemble L' R' segs tail = assemble L' R' segs' tail'"
proof (cases segs)
  case Nil
  have "x # assemble L R [] tail = assemble L R [] (x # tail)
      \<and> x # assemble L' R' [] tail = assemble L' R' [] (x # tail)" by simp
  then show ?thesis unfolding Nil by blast
next
  case (Cons sg sgs)
  obtain pre mid where sg: "sg = (pre, mid)" by (cases sg)
  have "x # assemble L R (sg # sgs) tail = assemble L R ((x # pre, mid) # sgs) tail
      \<and> x # assemble L' R' (sg # sgs) tail = assemble L' R' ((x # pre, mid) # sgs) tail"
    by (simp add: sg)
  then show ?thesis unfolding Cons by blast
qed

lemma regexReplace_assemble:
  "\<exists>segs tail. s = assemble opn cls segs tail
       \<and> regexReplace opn cls A B s = assemble A B segs tail"
proof (induction opn cls A B s rule: regexReplace.induct)
  case (1 opn cls A B)
  have "[] = assemble opn cls [] [] \<and> regexReplace opn cls A B [] = assemble A B [] []"
    by simp
  then show ?case by blast
next
  case (2 opn cls A B x xs)
  show ?case
  proof (cases "opn \<noteq> [] \<and> startsWith (x # xs) opn
                 \<and> lazyClose cls (drop (length opn) (x # xs)) \<noteq> None")
    case True
    then obtain mid rest where lc: "lazyClose cls (drop (length opn) (x # xs)) = Some (mid, rest)"
      by fastforce
    from True have sw: "startsWith (x # xs) opn" and ne: "opn \<noteq> []" by simp_all
    from lc[unfolded lazyClose_Some_iff] have d: "drop (length opn) (x # xs) = mid @ cls @ rest"
      by blast
    have e: "x # xs = opn @ mid @ cls @ rest"
      using startsWith_drop[OF sw] d by simp
    have r: "regexReplace opn cls A B (x # xs) = A @ mid @ B @ regexReplace opn cls A B rest"
      using ne sw lc by simp
    obtain segs tail where ih: "rest = assemble opn cls segs tail"
      "regexReplace opn cls A B rest = assemble A B segs tail"
      using "2.IH"(2)[OF _ lc refl] ne sw by blast
    have "x # xs = assemble opn cls (([], mid) # segs) tail
        \<and> regexReplace opn cls A B (x # xs) = assemble A B (([], mid) # segs) tail"
      using e r ih by simp
    then show ?thesis by blast
  next
    case False
    then have r: "regexReplace opn cls A B (x # xs) = x # regexReplace opn cls A B xs"
      by (auto split: option.splits)
    have "\<exists>segs tail. xs = assemble opn cls segs tail
       \<and> regexReplace opn cls A B xs = assemble A B segs tail"
    proof (cases "opn \<noteq> [] \<and> startsWith (x # xs) opn")
      case True
      with False have "lazyClose cls (drop (length opn) (x # xs)) = None" by blast
      then show ?thesis using "2.IH"(1) True by blast
    next
      case False
      then show ?thesis using "2.IH"(3) by blast
    qed
    then obtain segs tail where ih: "xs = assemble opn cls segs tail"
      "regexReplace opn cls A B xs = assemble A B segs tail" by blast
    obtain segs' tail' where "x # assemble opn cls segs tail = assemble opn cls segs' tail'"
      "x # assemble A B segs tail = assemble A B segs' tail'"
      using assemble_Cons_char by blast
    then have "x # xs = assemble opn cls segs' tail'
       \<and> regexReplace opn cls A B (x # xs) = assemble A B segs' tail'"
      using r ih by simp
    then show ?thesis by blast
  qed
qed

lemma spanStarts_sublist:
  assumes "spanStarts opn cls (drop i s)" shows "sublist opn s"
proof -
  have "startsWith (drop i s) opn" using assms by (simp add: spanStarts_def)
  then obtain r where "drop i s = opn @ r" by (auto simp: startsWith_iff)
  then have "s = take i s @ opn @ r" by (metis append_take_drop_id)
  then show ?thesis unfolding sublist_def by blast
qed

lemma regexReplace_no_opener:
  "\<not> sublist opn s \<Longrightarrow> regexReplace opn cls A B s = s"
  by (rule regexReplace_spanFree) (auto simp: spanFree_def dest: spanStarts_sublist)

section \<open>What a rule leaves for a second application\<close>

lemma singleLine_append [simp]: "singleLine (a @ b) \<longleftrightarrow> singleLine a \<and> singleLine b"
  by (auto simp: singleLine_def)

lemma spanFree_iff_hasSpan:
  assumes "opn \<noteq> []"
  shows "spanFree opn cls s \<longleftrightarrow> \<not> hasSpan opn cls s"
proof
  assume f: "spanFree opn cls s"
  show "\<not> hasSpan opn cls s"
  proof
    assume "hasSpan opn cls s"
    then obtain u v w where s: "s = u @ opn @ v @ cls @ w" and v: "singleLine v"
      unfolding hasSpan_def by blast
    have "length u < length s" using s assms by (cases opn) auto
    then have "\<not> spanStarts opn cls (drop (length u) s)"
      using f unfolding spanFree_def by simp
    moreover have "drop (length u) s = opn @ v @ cls @ w" using s by simp
    ultimately show False using v unfolding spanStarts_iff by blast
  qed
next
  assume n: "\<not> hasSpan opn cls s"
  show "spanFree opn cls s"
    unfolding spanFree_def
  proof
    fix i assume "i \<in> {0..<length s}"
    show "\<not> spanStarts opn cls (drop i s)"
    proof
      assume "spanStarts opn cls (drop i s)"
      then obtain v w where "drop i s = opn @ v @ cls @ w" and v: "singleLine v"
        unfolding spanStarts_iff by blast
      then have "s = take i s @ opn @ v @ cls @ w" by (metis append_take_drop_id)
      with v have "hasSpan opn cls s" unfolding hasSpan_def by blast
      with n show False by blast
    qed
  qed
qed

lemma occ_split:
  assumes T: "tagAvoids T m" and e: "x @ T @ y = u @ m @ w"
  shows "(\<exists>u'. x = u @ m @ u' \<and> w = u' @ T @ y) \<or> (\<exists>w'. y = w' @ m @ w \<and> u = x @ T @ w')"
proof -
  from T have Tne: "T \<noteq> []" and hdT: "hd T \<notin> set m" and lastT: "last T \<notin> set m"
    and nsub: "\<not> sublist m T" unfolding tagAvoids_def by blast+
  from e obtain z where "(x = u @ z \<and> z @ T @ y = m @ w) \<or> (x @ z = u \<and> T @ y = z @ m @ w)"
    unfolding append_eq_append_conv2 by blast
  then show ?thesis
  proof
    assume a: "x = u @ z \<and> z @ T @ y = m @ w"
    then obtain z' where "(z = m @ z' \<and> z' @ T @ y = w) \<or> (z @ z' = m \<and> T @ y = z' @ w)"
      unfolding append_eq_append_conv2 by blast
    then show ?thesis
    proof
      assume "z = m @ z' \<and> z' @ T @ y = w"
      with a show ?thesis by auto
    next
      assume b: "z @ z' = m \<and> T @ y = z' @ w"
      show ?thesis
      proof (cases "z' = []")
        case True
        with a b show ?thesis by auto
      next
        case False
        with b Tne have "hd T = hd z'" by (metis hd_append2)
        moreover have "hd z' \<in> set m" using b False by (metis hd_in_set in_set_conv_decomp set_append UnCI)
        ultimately show ?thesis using hdT by simp
      qed
    qed
  next
    assume a: "x @ z = u \<and> T @ y = z @ m @ w"
    then obtain t where "(T = z @ t \<and> t @ y = m @ w) \<or> (T @ t = z \<and> y = t @ m @ w)"
      unfolding append_eq_append_conv2 by blast
    then show ?thesis
    proof
      assume b: "T = z @ t \<and> t @ y = m @ w"
      then obtain q where "(t = m @ q \<and> q @ y = w) \<or> (t @ q = m \<and> y = q @ w)"
        unfolding append_eq_append_conv2 by blast
      then show ?thesis
      proof
        assume "t = m @ q \<and> q @ y = w"
        with b have "T = z @ m @ q" by simp
        then have "sublist m T" unfolding sublist_def by blast
        with nsub show ?thesis by blast
      next
        assume c: "t @ q = m \<and> y = q @ w"
        show ?thesis
        proof (cases "t = []")
          case True
          with a b c show ?thesis by auto
        next
          case False
          with b have "last T = last t" by simp
          moreover have "last t \<in> set m" using c False by (metis last_in_set set_append UnCI)
          ultimately show ?thesis using lastT by simp
        qed
      qed
    next
      assume "T @ t = z \<and> y = t @ m @ w"
      with a show ?thesis by auto
    qed
  qed
qed

lemma sublist_reflect:
  assumes "tagAvoids T m" "sublist m (x @ T @ y)"
  shows "sublist m (x @ M @ y)"
proof -
  from assms(2) obtain u w where "x @ T @ y = u @ m @ w" unfolding sublist_def by auto
  from occ_split[OF assms(1) this] show ?thesis
  proof
    assume "\<exists>u'. x = u @ m @ u' \<and> w = u' @ T @ y"
    then obtain u' where "x = u @ m @ u'" by blast
    then have "x @ M @ y = u @ m @ (u' @ M @ y)" by simp
    then show ?thesis unfolding sublist_def by blast
  next
    assume "\<exists>w'. y = w' @ m @ w \<and> u = x @ T @ w'"
    then obtain w' where "y = w' @ m @ w" by blast
    then have "x @ M @ y = (x @ M @ w') @ m @ w" by simp
    then show ?thesis unfolding sublist_def by blast
  qed
qed

lemma hasSpan_reflect:
  assumes To: "tagAvoids T opn" and Tc: "tagAvoids T cls" and M: "singleLine M"
    and h: "hasSpan opn cls (x @ T @ y)"
  shows "hasSpan opn cls (x @ M @ y)"
proof -
  from h obtain u v w where e: "x @ T @ y = u @ opn @ (v @ cls @ w)" and v: "singleLine v"
    unfolding hasSpan_def by auto
  from occ_split[OF To e] show ?thesis
  proof
    assume "\<exists>u'. x = u @ opn @ u' \<and> v @ cls @ w = u' @ T @ y"
    then obtain u' where x: "x = u @ opn @ u'" and e2: "u' @ T @ y = v @ cls @ w" by auto
    from occ_split[OF Tc e2] show ?thesis
    proof
      assume "\<exists>u''. u' = v @ cls @ u'' \<and> w = u'' @ T @ y"
      then obtain u'' where "u' = v @ cls @ u''" by blast
      with x have "x @ M @ y = u @ opn @ v @ cls @ (u'' @ M @ y)" by simp
      with v show ?thesis unfolding hasSpan_def by blast
    next
      assume "\<exists>w'. y = w' @ cls @ w \<and> v = u' @ T @ w'"
      then obtain w' where y: "y = w' @ cls @ w" and vv: "v = u' @ T @ w'" by blast
      have "x @ M @ y = u @ opn @ (u' @ M @ w') @ cls @ w" using x y by simp
      moreover have "singleLine (u' @ M @ w')" using v vv M by simp
      ultimately show ?thesis unfolding hasSpan_def by blast
    qed
  next
    assume "\<exists>w'. y = w' @ opn @ v @ cls @ w \<and> u = x @ T @ w'"
    then obtain w' where "y = w' @ opn @ v @ cls @ w" by blast
    then have "x @ M @ y = (x @ M @ w') @ opn @ v @ cls @ w" by simp
    with v show ?thesis unfolding hasSpan_def by blast
  qed
qed

lemma hasSpan_assemble:
  assumes "tagAvoids A opn" "tagAvoids A cls" "tagAvoids B opn" "tagAvoids B cls"
    and "singleLine L" "singleLine R"
  shows "hasSpan opn cls (x @ assemble A B segs tail)
         \<Longrightarrow> hasSpan opn cls (x @ assemble L R segs tail)"
proof (induction segs arbitrary: x)
  case Nil
  then show ?case by simp
next
  case (Cons sg segs)
  obtain p m where sg: "sg = (p, m)" by (cases sg)
  from Cons.prems have "hasSpan opn cls ((x @ p @ A @ m @ B) @ assemble A B segs tail)"
    by (simp add: sg)
  then have "hasSpan opn cls ((x @ p @ A @ m @ B) @ assemble L R segs tail)"
    by (rule Cons.IH)
  then have "hasSpan opn cls ((x @ p @ A @ m) @ B @ assemble L R segs tail)" by simp
  then have "hasSpan opn cls ((x @ p @ A @ m) @ R @ assemble L R segs tail)"
    using assms(3,4,6) hasSpan_reflect by blast
  then have "hasSpan opn cls ((x @ p) @ A @ (m @ R @ assemble L R segs tail))" by simp
  then have "hasSpan opn cls ((x @ p) @ L @ (m @ R @ assemble L R segs tail))"
    using assms(1,2,5) hasSpan_reflect by blast
  then show ?case by (simp add: sg)
qed

lemma sublist_assemble:
  assumes "tagAvoids A m" "tagAvoids B m"
  shows "sublist m (x @ assemble A B segs tail) \<Longrightarrow> sublist m (x @ assemble L R segs tail)"
proof (induction segs arbitrary: x)
  case Nil
  then show ?case by simp
next
  case (Cons sg segs)
  obtain p c where sg: "sg = (p, c)" by (cases sg)
  from Cons.prems have "sublist m ((x @ p @ A @ c @ B) @ assemble A B segs tail)"
    by (simp add: sg)
  then have "sublist m ((x @ p @ A @ c @ B) @ assemble L R segs tail)"
    by (rule Cons.IH)
  then have "sublist m ((x @ p @ A @ c) @ B @ assemble L R segs tail)" by simp
  then have "sublist m ((x @ p @ A @ c) @ R @ assemble L R segs tail)"
    using assms(2) sublist_reflect by blast
  then have "sublist m ((x @ p) @ A @ (c @ R @ assemble L R segs tail))" by simp
  then have "sublist m ((x @ p) @ L @ (c @ R @ assemble L R segs tail))"
    using assms(1) sublist_reflect by blast
  then show ?case by (simp add: sg)
qed

lemma hasSpan_regexReplace:
  assumes "tagAvoids A opn" "tagAvoids A cls" "tagAvoids B opn" "tagAvoids B cls"
    and "singleLine L" "singleLine R"
    and "hasSpan opn cls (regexReplace L R A B s)"
  shows "hasSpan opn cls s"
proof -
  obtain segs tail where "s = assemble L R segs tail"
    "regexReplace L R A B s = assemble A B segs tail"
    using regexReplace_assemble by blast
  then show ?thesis using hasSpan_assemble[OF assms(1-6), of "[]" segs tail] assms(7) by simp
qed

lemma sublist_regexReplace:
  assumes "tagAvoids A m" "tagAvoids B m" "sublist m (regexReplace L R A B s)"
  shows "sublist m s"
proof -
  obtain segs tail where "s = assemble L R segs tail"
    "regexReplace L R A B s = assemble A B segs tail"
    using regexReplace_assemble by blast
  then show ?thesis using sublist_assemble[OF assms(1,2), of "[]" segs tail] assms(3) by simp
qed

lemma firstSpan_length:
  "opn \<noteq> [] \<Longrightarrow> firstSpan opn cls s pre mid rest \<Longrightarrow> length rest < length s"
  by (cases opn) (auto simp: firstSpan_def)

lemma regexReplace_stable:
  assumes m: "m \<noteq> []" and A: "tagAvoids A m" and B: "tagAvoids B m"
  shows "\<not> hasSpan m m (regexReplace m m A B s)"
proof (induction s rule: length_induct)
  case (1 s)
  from spanFree_or_firstSpan[OF m, of m s] show ?case
  proof
    assume f: "spanFree m m s"
    then have "regexReplace m m A B s = s" by (rule regexReplace_spanFree)
    then show ?thesis using f spanFree_iff_hasSpan[OF m] by simp
  next
    assume "\<exists>pre mid rest. firstSpan m m s pre mid rest"
    then obtain pre mid rest where fs: "firstSpan m m s pre mid rest" by blast
    let ?Z = "regexReplace m m A B rest"
    have r: "regexReplace m m A B s = pre @ A @ mid @ B @ ?Z"
      using regexReplace_firstSpan[OF m fs] .
    have Z: "\<not> hasSpan m m ?Z" using "1.IH" firstSpan_length[OF m fs] by blast
    from fs have s: "s = pre @ m @ mid @ m @ rest"
      and sh: "\<forall>k\<in>{0..<length mid}. \<not> startsWith (drop k (mid @ m)) m"
      and ns: "\<forall>i\<in>{0..<length pre}. \<not> spanStarts m m (drop i s)"
      unfolding firstSpan_def by blast+
    have F2: "\<not> sublist m mid"
    proof
      assume "sublist m mid"
      then obtain a b where mid: "mid = a @ m @ b" unfolding sublist_def by blast
      then have "length a \<in> {0..<length mid}" using m by (cases m) auto
      then have "\<not> startsWith (drop (length a) (mid @ m)) m" using sh by blast
      moreover have "drop (length a) (mid @ m) = m @ (b @ m)" using mid by simp
      ultimately show False unfolding startsWith_iff by blast
    qed
    have F1: False if "pre = u @ m @ u'" "u' @ m @ mid @ m @ rest = v @ m @ w0" "singleLine v"
      for u u' v w0
    proof -
      have "length u \<in> {0..<length pre}" using that(1) m by (cases m) auto
      then have "\<not> spanStarts m m (drop (length u) s)" using ns by blast
      moreover have "drop (length u) s = m @ v @ m @ w0" using s that(1,2) by simp
      ultimately show False using that(3) unfolding spanStarts_iff by blast
    qed
    show ?thesis
    proof
      assume "hasSpan m m (regexReplace m m A B s)"
      then obtain u v w where e: "pre @ A @ (mid @ B @ ?Z) = u @ m @ (v @ m @ w)"
        and v: "singleLine v" unfolding r hasSpan_def by auto
      from occ_split[OF A e] show False
      proof
        assume "\<exists>u'. pre = u @ m @ u' \<and> v @ m @ w = u' @ A @ mid @ B @ ?Z"
        then obtain u' where p: "pre = u @ m @ u'" and e2: "u' @ A @ (mid @ B @ ?Z) = v @ m @ w"
          by auto
        from occ_split[OF A e2] show False
        proof
          assume "\<exists>u''. u' = v @ m @ u'' \<and> w = u'' @ A @ mid @ B @ ?Z"
          then obtain u'' where "u' = v @ m @ u''" by blast
          then have "u' @ m @ mid @ m @ rest = v @ m @ (u'' @ m @ mid @ m @ rest)" by simp
          from F1[OF p this v] show False .
        next
          assume "\<exists>w'. mid @ B @ ?Z = w' @ m @ w \<and> v = u' @ A @ w'"
          then obtain w' where "v = u' @ A @ w'" by blast
          with v have "singleLine u'" by simp
          moreover have "u' @ m @ mid @ m @ rest = u' @ m @ (mid @ m @ rest)" by simp
          ultimately show False using F1[OF p] by blast
        qed
      next
        assume "\<exists>w'. mid @ B @ ?Z = w' @ m @ v @ m @ w \<and> u = pre @ A @ w'"
        then obtain w' where e3: "mid @ B @ ?Z = w' @ m @ (v @ m @ w)" by auto
        from occ_split[OF B e3] show False
        proof
          assume "\<exists>u'. mid = w' @ m @ u' \<and> v @ m @ w = u' @ B @ ?Z"
          then have "sublist m mid" unfolding sublist_def by blast
          with F2 show False by blast
        next
          assume "\<exists>w''. ?Z = w'' @ m @ v @ m @ w \<and> w' = mid @ B @ w''"
          then have "hasSpan m m ?Z" using v unfolding hasSpan_def by blast
          with Z show False by blast
        qed
      qed
    qed
  qed
qed

lemma hasSpan_stable:
  assumes "opn \<noteq> []" "\<not> hasSpan opn cls s"
  shows "regexReplace opn cls A B s = s"
  using assms regexReplace_spanFree spanFree_iff_hasSpan by blast

lemma tag_facts:
  "tagAvoids markOpen ''==''" "tagAvoids markClose ''==''"
  "tagAvoids supOpen ''==''" "tagAvoids supClose ''==''"
  "tagAvoids subOpen ''==''" "tagAvoids subClose ''==''"
  "tagAvoids supOpen ''^''" "tagAvoids supClose ''^''"
  "tagAvoids subOpen ''^''" "tagAvoids subClose ''^''"
  "tagAvoids markOpen ''_-''" "tagAvoids markClose ''_-''"
  "tagAvoids supOpen ''_-''" "tagAvoids supClose ''_-''"
  by (simp_all add: tagAvoids_def markOpen_def markClose_def supOpen_def supClose_def
      subOpen_def subClose_def sublist_Cons_right)

lemma marker_lines:
  "singleLine ''==''" "singleLine ''^''" "singleLine ''_-''" "singleLine ''-_''"
  by (simp_all add: singleLine_def isLineTerminator_def)

lemma second_pass:
  "applyTransformations (applyTransformations s) = addSubScript (applyTransformations s)"
proof -
  let ?s1 = "addMarkTags s"
  let ?s2 = "addSuperScript ?s1"
  let ?t = "addSubScript ?s2"
  have "\<not> hasSpan ''=='' ''=='' ?s1"
    unfolding addMarkTags_def by (rule regexReplace_stable) (simp_all add: tag_facts)
  then have "\<not> hasSpan ''=='' ''=='' ?s2"
    unfolding addSuperScript_def
    using hasSpan_regexReplace[OF tag_facts(3) tag_facts(3) tag_facts(4) tag_facts(4)
        marker_lines(2) marker_lines(2)] by blast
  then have "\<not> hasSpan ''=='' ''=='' ?t"
    unfolding addSubScript_def
    using hasSpan_regexReplace[OF tag_facts(5) tag_facts(5) tag_facts(6) tag_facts(6)
        marker_lines(3) marker_lines(4)] by blast
  then have 1: "addMarkTags ?t = ?t"
    unfolding addMarkTags_def[of ?t] by (intro hasSpan_stable) simp_all
  have "\<not> hasSpan ''^'' ''^'' ?s2"
    unfolding addSuperScript_def by (rule regexReplace_stable) (simp_all add: tag_facts)
  then have "\<not> hasSpan ''^'' ''^'' ?t"
    unfolding addSubScript_def
    using hasSpan_regexReplace[OF tag_facts(9) tag_facts(9) tag_facts(10) tag_facts(10)
        marker_lines(3) marker_lines(4)] by blast
  then have 2: "addSuperScript ?t = ?t"
    unfolding addSuperScript_def[of ?t] by (intro hasSpan_stable) simp_all
  show ?thesis
    unfolding applyTransformations_def[of "applyTransformations s"]
    unfolding applyTransformations_def[of s] 1 2 ..
qed

lemma no_subscript_opener:
  assumes "\<not> sublist ''_-'' s"
  shows "\<not> sublist ''_-'' (applyTransformations s)"
proof -
  have 1: "\<not> sublist ''_-'' (addMarkTags s)"
    unfolding addMarkTags_def
    using assms sublist_regexReplace[OF tag_facts(11) tag_facts(12)] by blast
  then have 2: "\<not> sublist ''_-'' (addSuperScript (addMarkTags s))"
    unfolding addSuperScript_def
    using sublist_regexReplace[OF tag_facts(13) tag_facts(14)] by blast
  then have "addSubScript (addSuperScript (addMarkTags s)) = addSuperScript (addMarkTags s)"
    unfolding addSubScript_def by (rule regexReplace_no_opener)
  then show ?thesis using 2 by (simp add: applyTransformations_def)
qed

section \<open>Properties of the walker\<close>

lemmas rw_eval = applyTransformations_def addMarkTags_def addSuperScript_def addSubScript_def
  markOpen_def markClose_def supOpen_def supClose_def subOpen_def subClose_def
  startsWith_def isLineTerminator_def

lemma walk_after_throw:
  "walk parse parentTag Thrown n = (Thrown, [n])"
  "walkList parse parentTag Thrown ns = (Thrown, ns)"
  by (induction parse parentTag Thrown n and parse parentTag Thrown ns
      rule: walk_walkList.induct) simp_all

lemma walkList_append:
  "walkList parse parentTag st (pre @ post) =
     (case walkList parse parentTag st pre of
        (st1, r1) \<Rightarrow> (case walkList parse parentTag st1 post of
                        (st2, r2) \<Rightarrow> (st2, r1 @ r2)))"
  by (induction pre arbitrary: st) (auto split: prod.splits)

lemma walk_total_parser:
  assumes "\<forall>s. parse s \<noteq> None"
  shows "fst (walk parse parentTag Completed n) = Completed"
    and "fst (walkList parse parentTag Completed ns) = Completed"
  using assms
proof (induction parse parentTag Completed n and parse parentTag Completed ns
      rule: walk_walkList.induct)
  case (1 parse parentTag c)
  then have "parse (applyTransformations c) \<noteq> None" by blast
  then show ?case
    by (auto simp: replaceTextNode_def Let_def split: option.splits)
next
  case (2 parse parentTag c)
  then show ?case by simp
next
  case (3 parse parentTag tag kids)
  then show ?case by (auto split: prod.splits)
next
  case (4 parse parentTag)
  then show ?case by simp
next
  case (5 parse parentTag n ns)
  then show ?case by (auto split: prod.splits)
qed

lemma walk_status_iff:
  "fst (walk parse parentTag st n) = Thrown \<longleftrightarrow>
     st = Thrown \<or> (\<exists>c\<in>set (textNodes parentTag n).
                      applyTransformations c \<noteq> c \<and> parse (applyTransformations c) = None)"
  "fst (walkList parse parentTag st ns) = Thrown \<longleftrightarrow>
     st = Thrown \<or> (\<exists>c\<in>set (textNodesList parentTag ns).
                      applyTransformations c \<noteq> c \<and> parse (applyTransformations c) = None)"
proof (induction parse parentTag st n and parse parentTag st ns rule: walk_walkList.induct)
  case (1 parse parentTag st c)
  show ?case
    by (cases st) (auto simp: replaceTextNode_def Let_def split: option.splits)
next
  case (2 parse parentTag st c)
  show ?case by simp
next
  case (3 parse parentTag st tag kids)
  then show ?case by (cases "walkList parse tag st kids") simp
next
  case (4 parse parentTag st)
  show ?case by simp
next
  case (5 parse parentTag st n ns)
  obtain st1 r1 where w: "walk parse parentTag st n = (st1, r1)" by (cases "walk parse parentTag st n")
  obtain st2 r2 where l: "walkList parse parentTag st1 ns = (st2, r2)"
    by (cases "walkList parse parentTag st1 ns")
  have a: "st1 = Thrown \<longleftrightarrow>
     st = Thrown \<or> (\<exists>c\<in>set (textNodes parentTag n).
                      applyTransformations c \<noteq> c \<and> parse (applyTransformations c) = None)"
    using "5.IH"(1) w by simp
  have b: "st2 = Thrown \<longleftrightarrow>
     st1 = Thrown \<or> (\<exists>c\<in>set (textNodesList parentTag ns).
                      applyTransformations c \<noteq> c \<and> parse (applyTransformations c) = None)"
    using "5.IH"(2)[OF w[symmetric]] l by simp
  show ?case using a b by (auto simp: w l)
qed

lemma walkList_fails_in_place:
  assumes "walkedFrames parse parentTag fs fs'"
    and "walkList parse (innerTag parentTag fs) Completed pre = (Completed, pre')"
    and "acceptNode (innerTag parentTag fs) c" "applyTransformations c \<noteq> c"
    and "parse (applyTransformations c) = None"
  shows "walkList parse parentTag Completed (plug fs (pre @ Text c # post))
         = (Thrown, plug fs' (pre' @ Text c # post))"
  using assms
proof (induction parse parentTag fs fs' rule: walkedFrames.induct)
  case (1 parse parentTag)
  then show ?case
    by (simp add: walkList_append walk_after_throw replaceTextNode_def)
next
  case (2 parse parentTag before tag after fs before' tag' after' fs')
  then have b: "walkList parse parentTag Completed before = (Completed, before')"
    and t: "tag' = tag" "after' = after" and w: "walkedFrames parse tag fs fs'" by simp_all
  have "walkList parse tag Completed (plug fs (pre @ Text c # post))
         = (Thrown, plug fs' (pre' @ Text c # post))"
    using "2.IH"[OF w] "2.prems"(2-5) by simp
  then show ?case
    by (simp add: walkList_append b t walk_after_throw)
next
  case (3 parse parentTag f' fs')
  then show ?case by simp
next
  case (4 parse parentTag f fs)
  then show ?case by simp
qed

section \<open>Properties of the decorators\<close>

lemmas case_eval = toLowerCase_def toLowerCaseChar_def toUpperCase_def toUpperCaseChar_def
  units_def char_of_def bit_Suc_0_iff

lemma units_append: "units (a @ b) = units a @ units b"
  by (simp add: units_def)

lemma admonitionKinds_cases:
  assumes "map_of admonitionKinds kind = Some (capitalized, iconTokens)"
  shows "kind \<in> set admonitionTypes"
    and "splitValue (orElse (getProperty admonitionIcons kind)
           (StringValue ''fas fa-info-circle'')) = Inr iconTokens"
    and "capitalize kind = units capitalized"
proof -
  have k: "kind \<in> {''note'', ''tip'', ''important'', ''success'', ''warning'',
      ''caution'', ''danger'', ''error''}"
  proof (rule ccontr)
    assume "kind \<notin> {''note'', ''tip'', ''important'', ''success'', ''warning'',
      ''caution'', ''danger'', ''error''}"
    then have "map_of admonitionKinds kind = None"
      by (simp add: admonitionKinds_def)
    with assms show False by simp
  qed
  show "kind \<in> set admonitionTypes" using k by (simp add: admonitionTypes_def)
  show "splitValue (orElse (getProperty admonitionIcons kind)
           (StringValue ''fas fa-info-circle'')) = Inr iconTokens"
    using k assms
    by (elim insertE emptyE;
        auto simp: admonitionKinds_def admonitionIcons_def getProperty_def orElse_def
          splitValue_def)
  show "capitalize kind = units capitalized"
    using k assms
    by (elim insertE emptyE; auto simp: admonitionKinds_def capitalize_def case_eval)
qed

lemma admonitionKinds_entry:
  assumes "kind \<in> set admonitionTypes"
  shows "map_of admonitionKinds kind \<noteq> None"
proof -
  from assms have "kind \<in> {''note'', ''tip'', ''important'', ''success'', ''warning'',
      ''caution'', ''danger'', ''error''}"
    by (simp add: admonitionTypes_def)
  then show ?thesis
    by (elim insertE emptyE; simp add: admonitionKinds_def)
qed

lemma admonitionCallback_recognized:
  assumes "recognizedKind (type node) (name node) = Some (kind, capitalized, iconTokens)"
  shows "admonitionCallback node =
     Inr (Node ''element'' (Some ''div'') (name node)
            (Some [(''className'', Tokens [''admonition'', ''admonition-'' @ kind])])
            (dataValue node) (nodeValue node)
            [Node ''element'' (Some ''div'') None
               (Some [(''className'', Tokens [''admonition-title''])]) None None
               [Node ''element'' (Some ''i'') None
                  (Some [(''className'', Tokens iconTokens)]) None None [],
                Node ''text'' None None None None
                  (Some (units ('' '' @ titleOf (children node) capitalized))) []],
             Node ''element'' (Some ''div'') None
               (Some [(''className'', Tokens [''admonition-content''])]) None None
               (drop 1 (children node))])"
proof -
  from assms obtain nm where t: "type node = ''containerDirective''" and n: "name node = Some nm"
    and k: "kind = toLowerCase nm"
    and m: "map_of admonitionKinds (toLowerCase nm) = Some (capitalized, iconTokens)"
    by (auto simp: recognizedKind_def split: if_splits option.splits)
  note c = admonitionKinds_cases[OF m]
  have title: "(case children node of
                 [] \<Rightarrow> capitalize (toLowerCase nm)
               | c # _ \<Rightarrow>
                   (case dataValue c of
                      None \<Rightarrow> capitalize (toLowerCase nm)
                    | Some v \<Rightarrow> if v = [] then capitalize (toLowerCase nm) else units v))
        = units (titleOf (children node) capitalized)"
    by (simp add: titleOf_def c(3) split: list.splits option.splits)
  show ?thesis
    unfolding admonitionCallback_def Let_def
    by (simp add: t n k c(1) c(2) title units_def)
qed

lemma admonitionCallback_unrecognized:
  assumes "recognizedKind (type node) (name node) = None"
    and "type node = ''containerDirective'' \<longrightarrow> name node \<noteq> None"
  shows "admonitionCallback node = Inr node"
proof (cases "type node = ''containerDirective''")
  case False
  then show ?thesis by (simp add: admonitionCallback_def)
next
  case True
  with assms(2) obtain nm where n: "name node = Some nm" by auto
  with assms(1) True have "map_of admonitionKinds (toLowerCase nm) = None"
    by (auto simp: recognizedKind_def split: option.splits)
  then have "toLowerCase nm \<notin> set admonitionTypes"
    using admonitionKinds_entry by blast
  then show ?thesis using True n by (simp add: admonitionCallback_def Let_def)
qed

lemma visitAdmonitions_Inr:
  "admonitionCallback n = Inr n' \<Longrightarrow>
     visitAdmonitions n =
       (case visitAdmonitionsList (children n') of
          Inl e \<Rightarrow> Inl e
        | Inr cs \<Rightarrow> Inr (Node (type n') (tagName n') (name n') (properties n')
                           (dataValue n') (nodeValue n') cs))"
  by (simp add: visitAdmonitions.simps)

lemma visitAdmonitions_leaf:
  "t \<noteq> ''containerDirective'' \<Longrightarrow>
     visitAdmonitions (Node t tg nm ps dv v []) = Inr (Node t tg nm ps dv v [])"
  by (simp add: visitAdmonitions.simps admonitionCallback_def)

lemma visitAdmonitionsList_map:
  "(\<And>c. c \<in> set cs \<Longrightarrow> visitAdmonitions c = Inr (f c))
     \<Longrightarrow> visitAdmonitionsList cs = Inr (map f cs)"
  by (induction cs) simp_all

lemma drop1_subset: "c \<in> set (drop 1 cs) \<Longrightarrow> c \<in> set cs"
  by (rule in_set_dropD)

lemma drop1_case: "(case cs of [] \<Rightarrow> [] | first # others \<Rightarrow> map f others) = map f (drop 1 cs)"
  by (cases cs) simp_all

lemma visitAdmonitions_titleBlock:
  "visitAdmonitions
        (Node ''element'' (Some ''div'') None
               (Some [(''className'', Tokens [''admonition-title''])]) None None
               [Node ''element'' (Some ''i'') None
                  (Some [(''className'', Tokens iconTokens)]) None None [],
                Node ''text'' None None None None (Some text) []])
      = Inr (Node ''element'' (Some ''div'') None
               (Some [(''className'', Tokens [''admonition-title''])]) None None
               [Node ''element'' (Some ''i'') None
                  (Some [(''className'', Tokens iconTokens)]) None None [],
                Node ''text'' None None None None (Some text) []])"
proof -
  let ?T = "Node ''element'' (Some ''div'') None
               (Some [(''className'', Tokens [''admonition-title''])]) None None
               [Node ''element'' (Some ''i'') None
                  (Some [(''className'', Tokens iconTokens)]) None None [],
                Node ''text'' None None None None (Some text) []]"
  have cb: "admonitionCallback ?T = Inr ?T" by (simp add: admonitionCallback_def)
  show ?thesis
    unfolding visitAdmonitions_Inr[OF cb] by (simp add: visitAdmonitions_leaf)
qed

lemma visitAdmonitions_contentBlock:
  assumes "visitAdmonitionsList cs = Inr cs'"
  shows "visitAdmonitions
        (Node ''element'' (Some ''div'') None
               (Some [(''className'', Tokens [''admonition-content''])]) None None cs)
      = Inr (Node ''element'' (Some ''div'') None
               (Some [(''className'', Tokens [''admonition-content''])]) None None cs')"
proof -
  let ?C = "Node ''element'' (Some ''div'') None
               (Some [(''className'', Tokens [''admonition-content''])]) None None cs"
  have cb: "admonitionCallback ?C = Inr ?C" by (simp add: admonitionCallback_def)
  show ?thesis
    unfolding visitAdmonitions_Inr[OF cb] by (simp add: assms)
qed

lemma visitAdmonitions_spec:
  "directivesNamed n \<Longrightarrow> visitAdmonitions n = Inr (admonitionSpec n)"
proof (induction n)
  case (Node t tg nm ps dv v cs)
  have kids: "visitAdmonitions c = Inr (admonitionSpec c)" if "c \<in> set cs" for c
    using Node.IH[OF that] Node.prems that by simp
  show ?case
  proof (cases "recognizedKind t nm")
    case None
    have "recognizedKind (type (Node t tg nm ps dv v cs)) (name (Node t tg nm ps dv v cs)) = None"
      using None by simp
    moreover have "type (Node t tg nm ps dv v cs) = ''containerDirective''
        \<longrightarrow> name (Node t tg nm ps dv v cs) \<noteq> None"
      using Node.prems by simp
    ultimately have cb: "admonitionCallback (Node t tg nm ps dv v cs) = Inr (Node t tg nm ps dv v cs)"
      by (rule admonitionCallback_unrecognized)
    have "visitAdmonitionsList cs = Inr (map admonitionSpec cs)"
      using kids by (rule visitAdmonitionsList_map)
    then show ?thesis
      unfolding visitAdmonitions_Inr[OF cb] by (simp add: None)
  next
    case (Some r)
    obtain kind capitalized iconTokens where r: "r = (kind, capitalized, iconTokens)"
      by (cases r)
    have "recognizedKind (type (Node t tg nm ps dv v cs)) (name (Node t tg nm ps dv v cs))
        = Some (kind, capitalized, iconTokens)"
      using Some r by simp
    note cb = admonitionCallback_recognized[OF this]
    have body: "visitAdmonitionsList (drop (Suc 0) cs) = Inr (map admonitionSpec (drop (Suc 0) cs))"
    proof (rule visitAdmonitionsList_map)
      fix c assume "c \<in> set (drop (Suc 0) cs)"
      then have "c \<in> set cs" by (rule in_set_dropD)
      then show "visitAdmonitions c = Inr (admonitionSpec c)" by (rule kids)
    qed
    have list: "visitAdmonitionsList
        [Node ''element'' (Some ''div'') None
               (Some [(''className'', Tokens [''admonition-title''])]) None None
               [Node ''element'' (Some ''i'') None
                  (Some [(''className'', Tokens iconTokens)]) None None [],
                Node ''text'' None None None None
                  (Some (units ('' '' @ titleOf cs capitalized))) []],
         Node ''element'' (Some ''div'') None
               (Some [(''className'', Tokens [''admonition-content''])]) None None (drop (Suc 0) cs)]
      = Inr [Node ''element'' (Some ''div'') None
               (Some [(''className'', Tokens [''admonition-title''])]) None None
               [Node ''element'' (Some ''i'') None
                  (Some [(''className'', Tokens iconTokens)]) None None [],
                Node ''text'' None None None None
                  (Some (units ('' '' @ titleOf cs capitalized))) []],
             Node ''element'' (Some ''div'') None
               (Some [(''className'', Tokens [''admonition-content''])]) None None
               (map admonitionSpec (drop (Suc 0) cs))]"
      by (simp add: visitAdmonitions_titleBlock visitAdmonitions_contentBlock[OF body])
    have spec: "admonitionSpec (Node t tg nm ps dv v cs) =
          Node ''element'' (Some ''div'') nm
            (Some [(''className'', Tokens [''admonition'', ''admonition-'' @ kind])]) dv v
            [Node ''element'' (Some ''div'') None
               (Some [(''className'', Tokens [''admonition-title''])]) None None
               [Node ''element'' (Some ''i'') None
                  (Some [(''className'', Tokens iconTokens)]) None None [],
                Node ''text'' None None None None
                  (Some (units ('' '' @ titleOf cs capitalized))) []],
             Node ''element'' (Some ''div'') None
               (Some [(''className'', Tokens [''admonition-content''])]) None None
               (map admonitionSpec (drop (Suc 0) cs))]"
      using drop1_case[of admonitionSpec cs] by (simp add: Some r)
    have cb': "admonitionCallback (Node t tg nm ps dv v cs) =
       Inr (Node ''element'' (Some ''div'') nm
            (Some [(''className'', Tokens [''admonition'', ''admonition-'' @ kind])]) dv v
            [Node ''element'' (Some ''div'') None
               (Some [(''className'', Tokens [''admonition-title''])]) None None
               [Node ''element'' (Some ''i'') None
                  (Some [(''className'', Tokens iconTokens)]) None None [],
                Node ''text'' None None None None
                  (Some (units ('' '' @ titleOf cs capitalized))) []],
             Node ''element'' (Some ''div'') None
               (Some [(''className'', Tokens [''admonition-content''])]) None None
               (drop (Suc 0) cs)])"
      using cb by simp
    show ?thesis
      unfolding visitAdmonitions_Inr[OF cb'] spec
      by (simp only: node.sel list sum.case)
  qed
qed

section \<open>The literal examples\<close>

text \<open>
  C9. The composed rewriter maps \<^verbatim>\<open>this is ==important== info\<close> to
  \<^verbatim>\<open>this is <mark>important</mark> info\<close>, \<^verbatim>\<open>E^2^ = mc^2^\<close> to the text with both
  exponents wrapped in \<^verbatim>\<open><sup class="suptext">\<close>, and \<^verbatim>\<open>H_-2-_O\<close> to the text with the
  2 wrapped in \<^verbatim>\<open><sub class="subtext">\<close>.
\<close>

theorem literal_examples:
  \<open>applyTransformations ''this is ==important== info'' = ''this is <mark>important</mark> info''
   \<and> applyTransformations ''E^2^ = mc^2^''
       = ''E<sup class="suptext">2</sup> = mc<sup class="suptext">2</sup>''
   \<and> applyTransformations ''H_-2-_O'' = ''H<sub class="subtext">2</sub>O''\<close>
  by (simp add: applyTransformations_def addMarkTags_def addSuperScript_def addSubScript_def
      markOpen_def markClose_def supOpen_def supClose_def subOpen_def subClose_def
      startsWith_def isLineTerminator_def)

section \<open>Matching is leftmost, non-greedy and non-overlapping\<close>




section \<open>Text outside the spans is reproduced\<close>

text \<open>
  C7. A text that contains none of the markers \<^verbatim>\<open>==\<close>, \<^verbatim>\<open>^\<close>, \<^verbatim>\<open>_-\<close>, \<^verbatim>\<open>-_\<close> is
  returned as it is by the composed rewriter. On every text each of the three rules only
  exchanges enclosing markers for its tags: its input and its output are assemblies of the
  same stretches and the same tail, so every stretch outside the markers is reproduced
  unchanged and in order.
\<close>

theorem rewriter_preserves_text:
  "(\<not> sublist ''=='' s \<and> \<not> sublist ''^'' s \<and> \<not> sublist ''_-'' s \<and> \<not> sublist ''-_'' s
      \<longrightarrow> applyTransformations s = s)
   \<and> (\<exists>segs1 tail1 segs2 tail2 segs3 tail3.
        s = assemble ''=='' ''=='' segs1 tail1
        \<and> addMarkTags s = assemble markOpen markClose segs1 tail1
        \<and> addMarkTags s = assemble ''^'' ''^'' segs2 tail2
        \<and> addSuperScript (addMarkTags s) = assemble supOpen supClose segs2 tail2
        \<and> addSuperScript (addMarkTags s) = assemble ''_-'' ''-_'' segs3 tail3
        \<and> applyTransformations s = assemble subOpen subClose segs3 tail3)"
proof
  show "\<not> sublist ''=='' s \<and> \<not> sublist ''^'' s \<and> \<not> sublist ''_-'' s \<and> \<not> sublist ''-_'' s
      \<longrightarrow> applyTransformations s = s"
    by (simp add: applyTransformations_def addMarkTags_def addSuperScript_def addSubScript_def
        regexReplace_no_opener)
next
  obtain segs1 tail1 where 1: "s = assemble ''=='' ''=='' segs1 tail1"
    "addMarkTags s = assemble markOpen markClose segs1 tail1"
    unfolding addMarkTags_def using regexReplace_assemble by blast
  obtain segs2 tail2 where 2: "addMarkTags s = assemble ''^'' ''^'' segs2 tail2"
    "addSuperScript (addMarkTags s) = assemble supOpen supClose segs2 tail2"
    unfolding addSuperScript_def using regexReplace_assemble by blast
  obtain segs3 tail3 where 3: "addSuperScript (addMarkTags s) = assemble ''_-'' ''-_'' segs3 tail3"
    "addSubScript (addSuperScript (addMarkTags s)) = assemble subOpen subClose segs3 tail3"
    unfolding addSubScript_def using regexReplace_assemble by blast
  show "\<exists>segs1 tail1 segs2 tail2 segs3 tail3.
        s = assemble ''=='' ''=='' segs1 tail1
        \<and> addMarkTags s = assemble markOpen markClose segs1 tail1
        \<and> addMarkTags s = assemble ''^'' ''^'' segs2 tail2
        \<and> addSuperScript (addMarkTags s) = assemble supOpen supClose segs2 tail2
        \<and> addSuperScript (addMarkTags s) = assemble ''_-'' ''-_'' segs3 tail3
        \<and> applyTransformations s = assemble subOpen subClose segs3 tail3"
    unfolding applyTransformations_def using 1 2 3 by blast
qed

text \<open>The theorem at a text with single \<^verbatim>\<open>=\<close>, \<^verbatim>\<open>_\<close> and \<^verbatim>\<open>-\<close> but no marker.\<close>

theorem rewriter_preserves_text_witness:
  "\<not> sublist ''=='' ''a = b_c - d'' \<and> \<not> sublist ''^'' ''a = b_c - d''
   \<and> \<not> sublist ''_-'' ''a = b_c - d'' \<and> \<not> sublist ''-_'' ''a = b_c - d''
   \<and> applyTransformations ''a = b_c - d'' = ''a = b_c - d''"
proof -
  have h: "\<not> sublist ''=='' ''a = b_c - d'' \<and> \<not> sublist ''^'' ''a = b_c - d''
   \<and> \<not> sublist ''_-'' ''a = b_c - d'' \<and> \<not> sublist ''-_'' ''a = b_c - d''"
    by (simp add: sublist_Cons_right)
  then show ?thesis using rewriter_preserves_text[of "''a = b_c - d''"] by blast
qed

section \<open>Applying the rewriter twice\<close>

text \<open>
  C4 as stated fails. The text \<^verbatim>\<open>_-_--_-_\<close> contains none of the three opening tags.
  The subscript rule captures \<^verbatim>\<open>_-\<close> between the first opener and the nearest closer
  and leaves the second closer behind the span; in the result the captured opener and the
  closer left behind enclose the closing tag, and a second application rewrites them.
\<close>

theorem idempotence_counterexample:
  "\<not> sublist markOpen ''_-_--_-_'' \<and> \<not> sublist supOpen ''_-_--_-_''
   \<and> \<not> sublist subOpen ''_-_--_-_''
   \<and> applyTransformations ''_-_--_-_'' = subOpen @ ''_-'' @ subClose @ ''-_''
   \<and> applyTransformations (applyTransformations ''_-_--_-_'')
       = subOpen @ subOpen @ subClose @ subClose
   \<and> applyTransformations (applyTransformations ''_-_--_-_'')
       \<noteq> applyTransformations ''_-_--_-_''"
  by (simp add: applyTransformations_def addMarkTags_def addSuperScript_def addSubScript_def
      markOpen_def markClose_def supOpen_def supClose_def subOpen_def subClose_def
      startsWith_def isLineTerminator_def sublist_Cons_right)

text \<open>
  C4 as amended. On a second application the highlight and the superscript rule find
  nothing on any text, so applying the composed rewriter twice is applying it once and
  then the subscript rule once more; for a text without the subscript opener \<^verbatim>\<open>_-\<close>
  twice equals once.
\<close>

theorem second_application:
  "applyTransformations (applyTransformations s) = addSubScript (applyTransformations s)
   \<and> (\<not> sublist ''_-'' s
        \<longrightarrow> applyTransformations (applyTransformations s) = applyTransformations s)"
proof
  show 1: "applyTransformations (applyTransformations s) = addSubScript (applyTransformations s)"
    by (rule second_pass)
  show "\<not> sublist ''_-'' s
        \<longrightarrow> applyTransformations (applyTransformations s) = applyTransformations s"
  proof
    assume "\<not> sublist ''_-'' s"
    then have "\<not> sublist ''_-'' (applyTransformations s)" by (rule no_subscript_opener)
    then have "addSubScript (applyTransformations s) = applyTransformations s"
      unfolding addSubScript_def by (rule regexReplace_no_opener)
    with 1 show "applyTransformations (applyTransformations s) = applyTransformations s"
      by simp
  qed
qed

text \<open>The amended statement at a text with a highlight and a superscript span.\<close>

theorem second_application_witness:
  "\<not> sublist ''_-'' ''a ==b== ^c^ -_d''
   \<and> applyTransformations (applyTransformations ''a ==b== ^c^ -_d'')
       = applyTransformations ''a ==b== ^c^ -_d''"
proof -
  have h: "\<not> sublist ''_-'' ''a ==b== ^c^ -_d''"
    by (simp add: sublist_Cons_right)
  then show ?thesis using second_application[of "''a ==b== ^c^ -_d''"] by blast
qed

section \<open>Text below code elements\<close>

text \<open>
  C1. The filter looks at the immediate parent of a text node and the entry test at the
  root alone. A text node that is a child of \<^verbatim>\<open>CODE\<close> keeps \<^verbatim>\<open>==x==\<close>. A text node
  inside a \<^verbatim>\<open>SPAN\<close> inside \<^verbatim>\<open>CODE\<close> inside \<^verbatim>\<open>PRE\<close>, which is how a highlighted token
  of a code block is laid out, is accepted: its content is rewritten to
  \<^verbatim>\<open><mark>x</mark>\<close> and the node is replaced by the parse of that string.
\<close>

theorem walker_rewrites_nested_code_text:
  "applyTextTransformationsToTextNodes parse
     (Element ''DIV'' [Element ''PRE'' [Element ''CODE'' [Text ''==x=='']]])
   = (Element ''DIV'' [Element ''PRE'' [Element ''CODE'' [Text ''==x=='']]], Completed)
   \<and> applyTextTransformationsToTextNodes parse
     (Element ''DIV'' [Element ''PRE'' [Element ''CODE'' [Element ''SPAN'' [Text ''==x=='']]]])
   = (case parse ''<mark>x</mark>'' of
        None \<Rightarrow>
          (Element ''DIV'' [Element ''PRE'' [Element ''CODE'' [Element ''SPAN'' [Text ''==x=='']]]],
           Thrown)
      | Some ns \<Rightarrow>
          (Element ''DIV'' [Element ''PRE'' [Element ''CODE'' [Element ''SPAN'' ns]]],
           Completed))"
  by (simp add: rw_eval acceptNode_def trim_def isWhiteSpace_def replaceTextNode_def
      split: option.splits)

section \<open>A fragment that does not parse\<close>

text \<open>
  C5 as stated fails. In an XHTML document the text \<^verbatim>\<open>1 < 2 ==a==\<close> is rewritten to
  \<^verbatim>\<open>1 < 2 <mark>a</mark>\<close>, which is not well-formed, and the assignment to
  \<^verbatim>\<open>innerHTML\<close> raises. The walk over two paragraphs stops at this first text node: the
  call ends with the exception, and the text node of the second paragraph, whose rewritten
  content differs and parses, is left as it was.
\<close>

theorem walk_continues_counterexample:
  "applyTextTransformationsToTextNodes xmlFragments
     (Element ''div'' [Element ''p'' [Text ''1 < 2 ==a==''], Element ''p'' [Text ''==b=='']])
   = (Element ''div'' [Element ''p'' [Text ''1 < 2 ==a==''], Element ''p'' [Text ''==b=='']],
      Thrown)
   \<and> applyTransformations ''1 < 2 ==a=='' = ''1 < 2 <mark>a</mark>''
   \<and> xmlFragments ''1 < 2 <mark>a</mark>'' = None
   \<and> acceptNode ''p'' ''==b==''
   \<and> applyTransformations ''==b=='' = ''<mark>b</mark>''
   \<and> xmlFragments ''<mark>b</mark>'' = Some [Element ''mark'' [Text ''b'']]"
  by (simp add: rw_eval acceptNode_def trim_def isWhiteSpace_def replaceTextNode_def
      xmlFragments_def)

text \<open>
  C5 as amended. When the rewritten content of an accepted text node does not parse, at
  whatever depth below the root the node lies, the call ends there with the exception:
  the siblings before it and the siblings before each element on the way down to it stand
  as a completed walk leaves them, the node itself and everything after it in document
  order are as they were. The call ends with the exception exactly when the rewritten
  content of one of the collected text nodes differs and does not parse; it returns
  nothing else, neither a count nor a list. Once the exception is raised no node changes.
  An accepted text node whose rewritten content differs and parses is replaced by the
  parsed nodes.
\<close>

theorem walk_stops_at_failure:
  "(tag \<notin> set [''SCRIPT'', ''STYLE'', ''CODE'', ''PRE'']
      \<and> walkedFrames parse tag fs fs'
      \<and> walkList parse (innerTag tag fs) Completed pre = (Completed, pre')
      \<and> acceptNode (innerTag tag fs) c \<and> applyTransformations c \<noteq> c
      \<and> parse (applyTransformations c) = None
     \<longrightarrow> applyTextTransformationsToTextNodes parse
            (Element tag (plug fs (pre @ Text c # post)))
          = (Element tag (plug fs' (pre' @ Text c # post)), Thrown))
   \<and> (snd (applyTextTransformationsToTextNodes parse (Element tag kids)) = Thrown
        \<longleftrightarrow> tag \<notin> set [''SCRIPT'', ''STYLE'', ''CODE'', ''PRE'']
            \<and> (\<exists>t\<in>set (textNodesList tag kids).
                  applyTransformations t \<noteq> t \<and> parse (applyTransformations t) = None))
   \<and> walkList parse parentTag Thrown ns = (Thrown, ns)
   \<and> (acceptNode parentTag c \<and> applyTransformations c \<noteq> c
        \<and> parse (applyTransformations c) = Some fragment
       \<longrightarrow> walkList parse parentTag Completed [Text c] = (Completed, fragment))"
proof (intro conjI impI)
  assume a: "tag \<notin> set [''SCRIPT'', ''STYLE'', ''CODE'', ''PRE'']
      \<and> walkedFrames parse tag fs fs'
      \<and> walkList parse (innerTag tag fs) Completed pre = (Completed, pre')
      \<and> acceptNode (innerTag tag fs) c \<and> applyTransformations c \<noteq> c
      \<and> parse (applyTransformations c) = None"
  then have "walkList parse tag Completed (plug fs (pre @ Text c # post))
         = (Thrown, plug fs' (pre' @ Text c # post))"
    using walkList_fails_in_place by blast
  with a show "applyTextTransformationsToTextNodes parse
            (Element tag (plug fs (pre @ Text c # post)))
          = (Element tag (plug fs' (pre' @ Text c # post)), Thrown)"
    by simp
next
  show "snd (applyTextTransformationsToTextNodes parse (Element tag kids)) = Thrown
        \<longleftrightarrow> tag \<notin> set [''SCRIPT'', ''STYLE'', ''CODE'', ''PRE'']
            \<and> (\<exists>t\<in>set (textNodesList tag kids).
                  applyTransformations t \<noteq> t \<and> parse (applyTransformations t) = None)"
    using walk_status_iff(2)[of parse tag Completed kids]
    by (cases "walkList parse tag Completed kids") auto
next
  show "walkList parse parentTag Thrown ns = (Thrown, ns)"
    by (rule walk_after_throw)
next
  assume "acceptNode parentTag c \<and> applyTransformations c \<noteq> c
        \<and> parse (applyTransformations c) = Some fragment"
  then show "walkList parse parentTag Completed [Text c] = (Completed, fragment)"
    by (simp add: replaceTextNode_def)
qed

text \<open>
  The amended statement in an XHTML document, on a failing text node inside a section
  inside the root: the paragraph before the section and the text node before the failing
  one are replaced, the failing node, its next sibling and the paragraph after the section
  are as they were.
\<close>

theorem walk_stops_at_failure_witness:
  "''div'' \<notin> set [''SCRIPT'', ''STYLE'', ''CODE'', ''PRE'']
   \<and> walkedFrames xmlFragments ''div''
        [([Element ''p'' [Text ''==a=='']], ''section'', [Element ''p'' [Text ''==c=='']])]
        [([Element ''p'' [Element ''mark'' [Text ''a'']]], ''section'',
          [Element ''p'' [Text ''==c=='']])]
   \<and> walkList xmlFragments ''section'' Completed [Text ''==b==''] 
       = (Completed, [Element ''mark'' [Text ''b'']])
   \<and> acceptNode ''section'' ''1 < 2 ==a==''
   \<and> applyTransformations ''1 < 2 ==a=='' \<noteq> ''1 < 2 ==a==''
   \<and> xmlFragments (applyTransformations ''1 < 2 ==a=='') = None
   \<and> applyTextTransformationsToTextNodes xmlFragments
        (Element ''div''
           [Element ''p'' [Text ''==a==''],
            Element ''section'' [Text ''==b=='', Text ''1 < 2 ==a=='', Text ''==c==''],
            Element ''p'' [Text ''==c=='']])
       = (Element ''div''
            [Element ''p'' [Element ''mark'' [Text ''a'']],
             Element ''section''
               [Element ''mark'' [Text ''b''], Text ''1 < 2 ==a=='', Text ''==c==''],
             Element ''p'' [Text ''==c=='']],
          Thrown)
   \<and> walkList xmlFragments ''p'' Completed [Text ''==c==''] 
       = (Completed, [Element ''mark'' [Text ''c'']])"
proof -
  let ?fs = "[([Element ''p'' [Text ''==a=='']], ''section'', [Element ''p'' [Text ''==c=='']])]"
  let ?fs' = "[([Element ''p'' [Element ''mark'' [Text ''a'']]], ''section'',
          [Element ''p'' [Text ''==c=='']])]"
  have h: "''div'' \<notin> set [''SCRIPT'', ''STYLE'', ''CODE'', ''PRE'']
      \<and> walkedFrames xmlFragments ''div'' ?fs ?fs'
      \<and> walkList xmlFragments (innerTag ''div'' ?fs) Completed [Text ''==b==''] 
          = (Completed, [Element ''mark'' [Text ''b'']])
      \<and> acceptNode (innerTag ''div'' ?fs) ''1 < 2 ==a==''
      \<and> applyTransformations ''1 < 2 ==a=='' \<noteq> ''1 < 2 ==a==''
      \<and> xmlFragments (applyTransformations ''1 < 2 ==a=='') = None"
    by (simp add: rw_eval acceptNode_def trim_def isWhiteSpace_def replaceTextNode_def
        xmlFragments_def)
  have g: "acceptNode ''p'' ''==c=='' \<and> applyTransformations ''==c=='' \<noteq> ''==c==''
      \<and> xmlFragments (applyTransformations ''==c=='') = Some [Element ''mark'' [Text ''c'']]"
    by (simp add: rw_eval acceptNode_def trim_def isWhiteSpace_def xmlFragments_def)
  have 1: "applyTextTransformationsToTextNodes xmlFragments
        (Element ''div'' (plug ?fs ([Text ''==b==''] @ Text ''1 < 2 ==a=='' # [Text ''==c==''])))
       = (Element ''div''
            (plug ?fs' ([Element ''mark'' [Text ''b'']] @ Text ''1 < 2 ==a=='' # [Text ''==c==''])),
          Thrown)"
    using h walk_stops_at_failure[of "''div''" xmlFragments ?fs ?fs' "[Text ''==b=='']"
        "[Element ''mark'' [Text ''b'']]" "''1 < 2 ==a==''" "[Text ''==c=='']"]
    by blast
  have 2: "walkList xmlFragments ''p'' Completed [Text ''==c==''] 
       = (Completed, [Element ''mark'' [Text ''c'']])"
    using g walk_stops_at_failure[of _ xmlFragments _ _ _ _ "''==c==''" _ _ "''p''" _
        "[Element ''mark'' [Text ''c'']]"]
    by blast
  from h have h': "walkList xmlFragments ''section'' Completed [Text ''==b==''] 
       = (Completed, [Element ''mark'' [Text ''b'']])
   \<and> acceptNode ''section'' ''1 < 2 ==a==''" by simp
  show ?thesis using h h' 1 2 by simp
qed

section \<open>The admonition decorator\<close>

lemmas admonition_eval = rehypeAdmonitions_def visitAdmonitions.simps admonitionCallback_def
  case_eval admonitionTypes_def admonitionIcons_def getProperty_def orElse_def splitValue_def
  capitalize_def Let_def

lemmas admonitionSpec_eval = recognizedKind_def admonitionKinds_def titleOf_def
  toLowerCase_def toLowerCaseChar_def units_def char_of_def bit_Suc_0_iff

text \<open>
  C2. On a tree whose directives have names the pass of the decorator yields the tree that
  the specification describes: wherever it lies in the tree, a container directive whose
  lower-cased name is a recognized kind has become a \<^verbatim>\<open>div\<close> element with the classes
  \<^verbatim>\<open>admonition\<close> and \<^verbatim>\<open>admonition-<kind>\<close> and exactly two children, the title
  container with the icon of the kind and the text node of a space and the title text, and
  the body container with the children from the second on, decorated in turn; every other
  node, a directive with another name among them, keeps its fields. The recognized kinds
  are those of the code's list. The title text is the data value of the first child when
  it has one that is not empty, and the capitalized kind otherwise. The directive named
  \<^verbatim>\<open>WARNING\<close> without children gets the warning icon and the text \<^verbatim>\<open> Warning\<close>; the one
  named \<^verbatim>\<open>foobar\<close> is returned as it is. The text of a node is given in code units.
\<close>

theorem admonition_conversion:
  "(directivesNamed tree \<longrightarrow> rehypeAdmonitions tree = Inr (admonitionSpec tree))
   \<and> (recognizedKind (type node) (name node) = Some (kind, capitalized, iconTokens)
        \<longrightarrow> admonitionCallback node =
            Inr (Node ''element'' (Some ''div'') (name node)
                   (Some [(''className'', Tokens [''admonition'', ''admonition-'' @ kind])])
                   (dataValue node) (nodeValue node)
                   [Node ''element'' (Some ''div'') None
                      (Some [(''className'', Tokens [''admonition-title''])]) None None
                      [Node ''element'' (Some ''i'') None
                         (Some [(''className'', Tokens iconTokens)]) None None [],
                       Node ''text'' None None None None
                         (Some (units ('' '' @ titleOf (children node) capitalized))) []],
                    Node ''element'' (Some ''div'') None
                      (Some [(''className'', Tokens [''admonition-content''])]) None None
                      (drop 1 (children node))]))
   \<and> (dataValue c = Some v \<and> v \<noteq> [] \<longrightarrow> titleOf (c # cs) d = v)
   \<and> (dataValue c = None \<or> dataValue c = Some [] \<longrightarrow> titleOf (c # cs) d = d)
   \<and> titleOf [] d = d
   \<and> (type node = ''containerDirective'' \<and> name node = Some nm
        \<and> toLowerCase nm \<notin> set admonitionTypes \<longrightarrow> admonitionCallback node = Inr node)
   \<and> (map_of admonitionKinds k \<noteq> None \<longleftrightarrow> k \<in> set admonitionTypes)
   \<and> rehypeAdmonitions (Node ''containerDirective'' None (Some ''WARNING'') None None None [])
       = Inr (Node ''element'' (Some ''div'') (Some ''WARNING'')
                (Some [(''className'', Tokens [''admonition'', ''admonition-warning''])])
                None None
                [Node ''element'' (Some ''div'') None
                   (Some [(''className'', Tokens [''admonition-title''])]) None None
                   [Node ''element'' (Some ''i'') None
                      (Some [(''className'', Tokens [''fas'', ''fa-exclamation-triangle''])])
                      None None [],
                    Node ''text'' None None None None (Some (units '' Warning'')) []],
                 Node ''element'' (Some ''div'') None
                   (Some [(''className'', Tokens [''admonition-content''])]) None None []])
   \<and> rehypeAdmonitions (Node ''containerDirective'' None (Some ''foobar'') None None None [])
       = Inr (Node ''containerDirective'' None (Some ''foobar'') None None None [])
   \<and> units '' Warning'' = [32, 87, 97, 114, 110, 105, 110, 103]"
proof (intro conjI impI)
  assume "directivesNamed tree"
  then show "rehypeAdmonitions tree = Inr (admonitionSpec tree)"
    unfolding rehypeAdmonitions_def by (rule visitAdmonitions_spec)
next
  assume "recognizedKind (type node) (name node) = Some (kind, capitalized, iconTokens)"
  then show "admonitionCallback node =
            Inr (Node ''element'' (Some ''div'') (name node)
                   (Some [(''className'', Tokens [''admonition'', ''admonition-'' @ kind])])
                   (dataValue node) (nodeValue node)
                   [Node ''element'' (Some ''div'') None
                      (Some [(''className'', Tokens [''admonition-title''])]) None None
                      [Node ''element'' (Some ''i'') None
                         (Some [(''className'', Tokens iconTokens)]) None None [],
                       Node ''text'' None None None None
                         (Some (units ('' '' @ titleOf (children node) capitalized))) []],
                    Node ''element'' (Some ''div'') None
                      (Some [(''className'', Tokens [''admonition-content''])]) None None
                      (drop 1 (children node))])"
    by (rule admonitionCallback_recognized)
next
  assume "dataValue c = Some v \<and> v \<noteq> []"
  then show "titleOf (c # cs) d = v" by (simp add: titleOf_def)
next
  assume "dataValue c = None \<or> dataValue c = Some []"
  then show "titleOf (c # cs) d = d" by (auto simp: titleOf_def)
next
  show "titleOf [] d = d" by (simp add: titleOf_def)
next
  assume "type node = ''containerDirective'' \<and> name node = Some nm
        \<and> toLowerCase nm \<notin> set admonitionTypes"
  then show "admonitionCallback node = Inr node"
    by (simp add: admonitionCallback_def Let_def)
next
  show "map_of admonitionKinds k \<noteq> None \<longleftrightarrow> k \<in> set admonitionTypes"
  proof
    assume "map_of admonitionKinds k \<noteq> None"
    then obtain a b where "map_of admonitionKinds k = Some (a, b)" by auto
    then show "k \<in> set admonitionTypes" by (rule admonitionKinds_cases(1))
  next
    assume "k \<in> set admonitionTypes"
    then show "map_of admonitionKinds k \<noteq> None" by (rule admonitionKinds_entry)
  qed
next
  show "rehypeAdmonitions (Node ''containerDirective'' None (Some ''WARNING'') None None None [])
       = Inr (Node ''element'' (Some ''div'') (Some ''WARNING'')
                (Some [(''className'', Tokens [''admonition'', ''admonition-warning''])])
                None None
                [Node ''element'' (Some ''div'') None
                   (Some [(''className'', Tokens [''admonition-title''])]) None None
                   [Node ''element'' (Some ''i'') None
                      (Some [(''className'', Tokens [''fas'', ''fa-exclamation-triangle''])])
                      None None [],
                    Node ''text'' None None None None (Some (units '' Warning'')) []],
                 Node ''element'' (Some ''div'') None
                   (Some [(''className'', Tokens [''admonition-content''])]) None None []])"
    by (simp add: admonition_eval)
next
  show "rehypeAdmonitions (Node ''containerDirective'' None (Some ''foobar'') None None None [])
       = Inr (Node ''containerDirective'' None (Some ''foobar'') None None None [])"
    by (simp add: admonition_eval)
next
  show "units '' Warning'' = [32, 87, 97, 114, 110, 105, 110, 103]"
    by (simp add: units_def)
qed

text \<open>
  The theorem on a tree with a directive named \<^verbatim>\<open>Tip\<close> below the root. Its first child
  carries the title \<^verbatim>\<open>Read me\<close>; its body is a paragraph and a directive named
  \<^verbatim>\<open>note\<close>, which is converted inside the body; the directive named \<^verbatim>\<open>aside\<close> stays.
\<close>

theorem admonition_conversion_witness:
  "directivesNamed
     (Node ''root'' None None None None None
        [Node ''containerDirective'' None (Some ''Tip'') None None None
           [Node ''paragraph'' None None None (Some ''Read me'') None [],
            Node ''paragraph'' None None None None None [],
            Node ''containerDirective'' None (Some ''note'') None None None []],
         Node ''containerDirective'' None (Some ''aside'') None None None []])
   \<and> rehypeAdmonitions
     (Node ''root'' None None None None None
        [Node ''containerDirective'' None (Some ''Tip'') None None None
           [Node ''paragraph'' None None None (Some ''Read me'') None [],
            Node ''paragraph'' None None None None None [],
            Node ''containerDirective'' None (Some ''note'') None None None []],
         Node ''containerDirective'' None (Some ''aside'') None None None []])
   = Inr
     (Node ''root'' None None None None None
        [Node ''element'' (Some ''div'') (Some ''Tip'')
           (Some [(''className'', Tokens [''admonition'', ''admonition-tip''])]) None None
           [Node ''element'' (Some ''div'') None
              (Some [(''className'', Tokens [''admonition-title''])]) None None
              [Node ''element'' (Some ''i'') None
                 (Some [(''className'', Tokens [''fas'', ''fa-lightbulb''])]) None None [],
               Node ''text'' None None None None (Some (units '' Read me'')) []],
            Node ''element'' (Some ''div'') None
              (Some [(''className'', Tokens [''admonition-content''])]) None None
              [Node ''paragraph'' None None None None None [],
               Node ''element'' (Some ''div'') (Some ''note'')
                 (Some [(''className'', Tokens [''admonition'', ''admonition-note''])])
                 None None
                 [Node ''element'' (Some ''div'') None
                    (Some [(''className'', Tokens [''admonition-title''])]) None None
                    [Node ''element'' (Some ''i'') None
                       (Some [(''className'', Tokens [''fas'', ''fa-info-circle''])])
                       None None [],
                     Node ''text'' None None None None (Some (units '' Note'')) []],
                  Node ''element'' (Some ''div'') None
                    (Some [(''className'', Tokens [''admonition-content''])]) None None
                    []]]],
         Node ''containerDirective'' None (Some ''aside'') None None None []])
   \<and> units '' Read me'' = [32, 82, 101, 97, 100, 32, 109, 101]
   \<and> units '' Note'' = [32, 78, 111, 116, 101]"
proof -
  let ?tree = "Node ''root'' None None None None None
        [Node ''containerDirective'' None (Some ''Tip'') None None None
           [Node ''paragraph'' None None None (Some ''Read me'') None [],
            Node ''paragraph'' None None None None None [],
            Node ''containerDirective'' None (Some ''note'') None None None []],
         Node ''containerDirective'' None (Some ''aside'') None None None []]"
  have h: "directivesNamed ?tree" by simp
  have "rehypeAdmonitions ?tree = Inr (admonitionSpec ?tree)"
    using admonition_conversion[of ?tree] h by blast
  then show ?thesis using h by (simp add: admonitionSpec_eval)
qed

section \<open>The title source is consumed\<close>

text \<open>
  C10. On a recognized directive the first child never reaches the output. The body
  container holds exactly the children from the second on, whether or not the first child
  carries a data value; of the first child the conversion reads the data value and nothing
  else, so that two directives that differ in the first child only, with the same data
  value, convert to the same node. Without a data value, or with an empty one, the title
  is the capitalized kind. A recognized directive without children gets that title and an
  empty body. In the pass the body's children are decorated in turn.
\<close>

theorem admonition_drops_first_child:
  "recognizedKind ''containerDirective'' (Some nm) = Some (kind, capitalized, iconTokens) \<longrightarrow>
     admonitionCallback (Node ''containerDirective'' tg (Some nm) ps dv v (c # cs)) =
       Inr (Node ''element'' (Some ''div'') (Some nm)
              (Some [(''className'', Tokens [''admonition'', ''admonition-'' @ kind])]) dv v
              [Node ''element'' (Some ''div'') None
                 (Some [(''className'', Tokens [''admonition-title''])]) None None
                 [Node ''element'' (Some ''i'') None
                    (Some [(''className'', Tokens iconTokens)]) None None [],
                  Node ''text'' None None None None
                    (Some (units ('' '' @ (case dataValue c of
                                            None \<Rightarrow> capitalized
                                          | Some t \<Rightarrow> if t = [] then capitalized else t))))
                    []],
               Node ''element'' (Some ''div'') None
                 (Some [(''className'', Tokens [''admonition-content''])]) None None cs])
     \<and> (dataValue c = None \<or> dataValue c = Some [] \<longrightarrow>
          admonitionCallback (Node ''containerDirective'' tg (Some nm) ps dv v (c # cs)) =
            Inr (Node ''element'' (Some ''div'') (Some nm)
                   (Some [(''className'', Tokens [''admonition'', ''admonition-'' @ kind])]) dv v
                   [Node ''element'' (Some ''div'') None
                      (Some [(''className'', Tokens [''admonition-title''])]) None None
                      [Node ''element'' (Some ''i'') None
                         (Some [(''className'', Tokens iconTokens)]) None None [],
                       Node ''text'' None None None None
                         (Some (units ('' '' @ capitalized))) []],
                    Node ''element'' (Some ''div'') None
                      (Some [(''className'', Tokens [''admonition-content''])]) None None cs]))
     \<and> (dataValue c = dataValue c' \<longrightarrow>
          admonitionCallback (Node ''containerDirective'' tg (Some nm) ps dv v (c # cs))
          = admonitionCallback (Node ''containerDirective'' tg (Some nm) ps dv v (c' # cs)))
     \<and> admonitionCallback (Node ''containerDirective'' tg (Some nm) ps dv v []) =
         Inr (Node ''element'' (Some ''div'') (Some nm)
                (Some [(''className'', Tokens [''admonition'', ''admonition-'' @ kind])]) dv v
                [Node ''element'' (Some ''div'') None
                   (Some [(''className'', Tokens [''admonition-title''])]) None None
                   [Node ''element'' (Some ''i'') None
                      (Some [(''className'', Tokens iconTokens)]) None None [],
                    Node ''text'' None None None None
                      (Some (units ('' '' @ capitalized))) []],
                 Node ''element'' (Some ''div'') None
                   (Some [(''className'', Tokens [''admonition-content''])]) None None []])
     \<and> ((\<forall>x\<in>set (c # cs). directivesNamed x) \<longrightarrow>
          rehypeAdmonitions (Node ''containerDirective'' tg (Some nm) ps dv v (c # cs)) =
            Inr (Node ''element'' (Some ''div'') (Some nm)
                   (Some [(''className'', Tokens [''admonition'', ''admonition-'' @ kind])]) dv v
                   [Node ''element'' (Some ''div'') None
                      (Some [(''className'', Tokens [''admonition-title''])]) None None
                      [Node ''element'' (Some ''i'') None
                         (Some [(''className'', Tokens iconTokens)]) None None [],
                       Node ''text'' None None None None
                         (Some (units ('' '' @ (case dataValue c of
                                                 None \<Rightarrow> capitalized
                                               | Some t \<Rightarrow>
                                                   if t = [] then capitalized else t))))
                         []],
                    Node ''element'' (Some ''div'') None
                      (Some [(''className'', Tokens [''admonition-content''])]) None None
                      (map admonitionSpec cs)]))"
proof
  assume k: "recognizedKind ''containerDirective'' (Some nm) = Some (kind, capitalized, iconTokens)"
  have r: "admonitionCallback (Node ''containerDirective'' tg (Some nm) ps dv v kids) =
       Inr (Node ''element'' (Some ''div'') (Some nm)
              (Some [(''className'', Tokens [''admonition'', ''admonition-'' @ kind])]) dv v
              [Node ''element'' (Some ''div'') None
                 (Some [(''className'', Tokens [''admonition-title''])]) None None
                 [Node ''element'' (Some ''i'') None
                    (Some [(''className'', Tokens iconTokens)]) None None [],
                  Node ''text'' None None None None
                    (Some (units ('' '' @ titleOf kids capitalized))) []],
               Node ''element'' (Some ''div'') None
                 (Some [(''className'', Tokens [''admonition-content''])]) None None
                 (drop 1 kids)])" for kids
    using admonitionCallback_recognized[of "Node ''containerDirective'' tg (Some nm) ps dv v kids"
        kind capitalized iconTokens] k by simp
  have t: "titleOf (x # xs) capitalized =
      (case dataValue x of None \<Rightarrow> capitalized
       | Some t \<Rightarrow> if t = [] then capitalized else t)" for x :: node and xs
    by (simp add: titleOf_def)
  have 1: "admonitionCallback (Node ''containerDirective'' tg (Some nm) ps dv v (c # cs)) =
       Inr (Node ''element'' (Some ''div'') (Some nm)
              (Some [(''className'', Tokens [''admonition'', ''admonition-'' @ kind])]) dv v
              [Node ''element'' (Some ''div'') None
                 (Some [(''className'', Tokens [''admonition-title''])]) None None
                 [Node ''element'' (Some ''i'') None
                    (Some [(''className'', Tokens iconTokens)]) None None [],
                  Node ''text'' None None None None
                    (Some (units ('' '' @ (case dataValue c of
                                            None \<Rightarrow> capitalized
                                          | Some t \<Rightarrow> if t = [] then capitalized else t))))
                    []],
               Node ''element'' (Some ''div'') None
                 (Some [(''className'', Tokens [''admonition-content''])]) None None cs])"
    unfolding r[of "c # cs"] t[of c cs] by simp
  have 2: "dataValue c = None \<or> dataValue c = Some [] \<longrightarrow>
          admonitionCallback (Node ''containerDirective'' tg (Some nm) ps dv v (c # cs)) =
            Inr (Node ''element'' (Some ''div'') (Some nm)
                   (Some [(''className'', Tokens [''admonition'', ''admonition-'' @ kind])]) dv v
                   [Node ''element'' (Some ''div'') None
                      (Some [(''className'', Tokens [''admonition-title''])]) None None
                      [Node ''element'' (Some ''i'') None
                         (Some [(''className'', Tokens iconTokens)]) None None [],
                       Node ''text'' None None None None
                         (Some (units ('' '' @ capitalized))) []],
                    Node ''element'' (Some ''div'') None
                      (Some [(''className'', Tokens [''admonition-content''])]) None None cs])"
    unfolding 1 by auto
  have 3: "dataValue c = dataValue c' \<longrightarrow>
          admonitionCallback (Node ''containerDirective'' tg (Some nm) ps dv v (c # cs))
          = admonitionCallback (Node ''containerDirective'' tg (Some nm) ps dv v (c' # cs))"
    unfolding r[of "c # cs"] r[of "c' # cs"] t by simp
  have 4: "admonitionCallback (Node ''containerDirective'' tg (Some nm) ps dv v []) =
         Inr (Node ''element'' (Some ''div'') (Some nm)
                (Some [(''className'', Tokens [''admonition'', ''admonition-'' @ kind])]) dv v
                [Node ''element'' (Some ''div'') None
                   (Some [(''className'', Tokens [''admonition-title''])]) None None
                   [Node ''element'' (Some ''i'') None
                      (Some [(''className'', Tokens iconTokens)]) None None [],
                    Node ''text'' None None None None
                      (Some (units ('' '' @ capitalized))) []],
                 Node ''element'' (Some ''div'') None
                   (Some [(''className'', Tokens [''admonition-content''])]) None None []])"
    unfolding r[of "[]"] by (simp add: titleOf_def)
  have 5: "(\<forall>x\<in>set (c # cs). directivesNamed x) \<longrightarrow>
          rehypeAdmonitions (Node ''containerDirective'' tg (Some nm) ps dv v (c # cs)) =
            Inr (Node ''element'' (Some ''div'') (Some nm)
                   (Some [(''className'', Tokens [''admonition'', ''admonition-'' @ kind])]) dv v
                   [Node ''element'' (Some ''div'') None
                      (Some [(''className'', Tokens [''admonition-title''])]) None None
                      [Node ''element'' (Some ''i'') None
                         (Some [(''className'', Tokens iconTokens)]) None None [],
                       Node ''text'' None None None None
                         (Some (units ('' '' @ (case dataValue c of
                                                 None \<Rightarrow> capitalized
                                               | Some t \<Rightarrow>
                                                   if t = [] then capitalized else t))))
                         []],
                    Node ''element'' (Some ''div'') None
                      (Some [(''className'', Tokens [''admonition-content''])]) None None
                      (map admonitionSpec cs)])"
  proof
    assume "\<forall>x\<in>set (c # cs). directivesNamed x"
    then have "directivesNamed (Node ''containerDirective'' tg (Some nm) ps dv v (c # cs))"
      by simp
    then have "rehypeAdmonitions (Node ''containerDirective'' tg (Some nm) ps dv v (c # cs))
        = Inr (admonitionSpec (Node ''containerDirective'' tg (Some nm) ps dv v (c # cs)))"
      unfolding rehypeAdmonitions_def by (rule visitAdmonitions_spec)
    then show "rehypeAdmonitions (Node ''containerDirective'' tg (Some nm) ps dv v (c # cs)) =
            Inr (Node ''element'' (Some ''div'') (Some nm)
                   (Some [(''className'', Tokens [''admonition'', ''admonition-'' @ kind])]) dv v
                   [Node ''element'' (Some ''div'') None
                      (Some [(''className'', Tokens [''admonition-title''])]) None None
                      [Node ''element'' (Some ''i'') None
                         (Some [(''className'', Tokens iconTokens)]) None None [],
                       Node ''text'' None None None None
                         (Some (units ('' '' @ (case dataValue c of
                                                 None \<Rightarrow> capitalized
                                               | Some t \<Rightarrow>
                                                   if t = [] then capitalized else t))))
                         []],
                    Node ''element'' (Some ''div'') None
                      (Some [(''className'', Tokens [''admonition-content''])]) None None
                      (map admonitionSpec cs)])"
      by (simp add: k t)
  qed
  show "admonitionCallback (Node ''containerDirective'' tg (Some nm) ps dv v (c # cs)) =
       Inr (Node ''element'' (Some ''div'') (Some nm)
              (Some [(''className'', Tokens [''admonition'', ''admonition-'' @ kind])]) dv v
              [Node ''element'' (Some ''div'') None
                 (Some [(''className'', Tokens [''admonition-title''])]) None None
                 [Node ''element'' (Some ''i'') None
                    (Some [(''className'', Tokens iconTokens)]) None None [],
                  Node ''text'' None None None None
                    (Some (units ('' '' @ (case dataValue c of
                                            None \<Rightarrow> capitalized
                                          | Some t \<Rightarrow> if t = [] then capitalized else t))))
                    []],
               Node ''element'' (Some ''div'') None
                 (Some [(''className'', Tokens [''admonition-content''])]) None None cs])
     \<and> (dataValue c = None \<or> dataValue c = Some [] \<longrightarrow>
          admonitionCallback (Node ''containerDirective'' tg (Some nm) ps dv v (c # cs)) =
            Inr (Node ''element'' (Some ''div'') (Some nm)
                   (Some [(''className'', Tokens [''admonition'', ''admonition-'' @ kind])]) dv v
                   [Node ''element'' (Some ''div'') None
                      (Some [(''className'', Tokens [''admonition-title''])]) None None
                      [Node ''element'' (Some ''i'') None
                         (Some [(''className'', Tokens iconTokens)]) None None [],
                       Node ''text'' None None None None
                         (Some (units ('' '' @ capitalized))) []],
                    Node ''element'' (Some ''div'') None
                      (Some [(''className'', Tokens [''admonition-content''])]) None None cs]))
     \<and> (dataValue c = dataValue c' \<longrightarrow>
          admonitionCallback (Node ''containerDirective'' tg (Some nm) ps dv v (c # cs))
          = admonitionCallback (Node ''containerDirective'' tg (Some nm) ps dv v (c' # cs)))
     \<and> admonitionCallback (Node ''containerDirective'' tg (Some nm) ps dv v []) =
         Inr (Node ''element'' (Some ''div'') (Some nm)
                (Some [(''className'', Tokens [''admonition'', ''admonition-'' @ kind])]) dv v
                [Node ''element'' (Some ''div'') None
                   (Some [(''className'', Tokens [''admonition-title''])]) None None
                   [Node ''element'' (Some ''i'') None
                      (Some [(''className'', Tokens iconTokens)]) None None [],
                    Node ''text'' None None None None
                      (Some (units ('' '' @ capitalized))) []],
                 Node ''element'' (Some ''div'') None
                   (Some [(''className'', Tokens [''admonition-content''])]) None None []])
     \<and> ((\<forall>x\<in>set (c # cs). directivesNamed x) \<longrightarrow>
          rehypeAdmonitions (Node ''containerDirective'' tg (Some nm) ps dv v (c # cs)) =
            Inr (Node ''element'' (Some ''div'') (Some nm)
                   (Some [(''className'', Tokens [''admonition'', ''admonition-'' @ kind])]) dv v
                   [Node ''element'' (Some ''div'') None
                      (Some [(''className'', Tokens [''admonition-title''])]) None None
                      [Node ''element'' (Some ''i'') None
                         (Some [(''className'', Tokens iconTokens)]) None None [],
                       Node ''text'' None None None None
                         (Some (units ('' '' @ (case dataValue c of
                                                 None \<Rightarrow> capitalized
                                               | Some t \<Rightarrow>
                                                   if t = [] then capitalized else t))))
                         []],
                    Node ''element'' (Some ''div'') None
                      (Some [(''className'', Tokens [''admonition-content''])]) None None
                      (map admonitionSpec cs)]))"
    using 1 2 3 4 5 by (intro conjI)
qed

text \<open>
  The theorem at a directive named \<^verbatim>\<open>note\<close> whose first child is a paragraph without a
  data value: the paragraph is gone, the title is \<^verbatim>\<open> Note\<close> with the icon of the kind,
  and the body is the second child.
\<close>

theorem admonition_drops_first_child_witness:
  "recognizedKind ''containerDirective'' (Some ''note'')
     = Some (''note'', ''Note'', [''fas'', ''fa-info-circle''])
   \<and> dataValue (Node ''paragraph'' None None None None None
                  [Node ''text'' None None None None (Some (units ''first'')) []]) = None
   \<and> admonitionCallback
        (Node ''containerDirective'' None (Some ''note'') None None None
           [Node ''paragraph'' None None None None None
              [Node ''text'' None None None None (Some (units ''first'')) []],
            Node ''text'' None None None None (Some (units ''second'')) []])
       = Inr (Node ''element'' (Some ''div'') (Some ''note'')
                (Some [(''className'', Tokens [''admonition'', ''admonition-note''])]) None None
                [Node ''element'' (Some ''div'') None
                   (Some [(''className'', Tokens [''admonition-title''])]) None None
                   [Node ''element'' (Some ''i'') None
                      (Some [(''className'', Tokens [''fas'', ''fa-info-circle''])]) None None [],
                    Node ''text'' None None None None (Some (units '' Note'')) []],
                 Node ''element'' (Some ''div'') None
                   (Some [(''className'', Tokens [''admonition-content''])]) None None
                   [Node ''text'' None None None None (Some (units ''second'')) []]])
   \<and> units '' Note'' = [32, 78, 111, 116, 101]"
proof -
  let ?c = "Node ''paragraph'' None None None None None
              [Node ''text'' None None None None (Some (units ''first'')) []]"
  have h: "recognizedKind ''containerDirective'' (Some ''note'')
     = Some (''note'', ''Note'', [''fas'', ''fa-info-circle''])"
    by (simp add: recognizedKind_def admonitionKinds_def toLowerCase_def toLowerCaseChar_def)
  have d: "dataValue ?c = None \<or> dataValue ?c = Some []" by simp
  have "admonitionCallback
        (Node ''containerDirective'' None (Some ''note'') None None None
           (?c # [Node ''text'' None None None None (Some (units ''second'')) []]))
       = Inr (Node ''element'' (Some ''div'') (Some ''note'')
                (Some [(''className'', Tokens [''admonition'', ''admonition-'' @ ''note''])])
                None None
                [Node ''element'' (Some ''div'') None
                   (Some [(''className'', Tokens [''admonition-title''])]) None None
                   [Node ''element'' (Some ''i'') None
                      (Some [(''className'', Tokens [''fas'', ''fa-info-circle''])]) None None [],
                    Node ''text'' None None None None (Some (units ('' '' @ ''Note''))) []],
                 Node ''element'' (Some ''div'') None
                   (Some [(''className'', Tokens [''admonition-content''])]) None None
                   [Node ''text'' None None None None (Some (units ''second'')) []]])"
    using admonition_drops_first_child[of "''note''" "''note''" "''Note''"
        "[''fas'', ''fa-info-circle'']" None None None None ?c
        "[Node ''text'' None None None None (Some (units ''second'')) []]" ?c] h d
    by blast
  then show ?thesis using h by (simp add: units_def)
qed

section \<open>The language-icon decorator\<close>

lemmas icon_eval = rehypeCodeLanguageIcons_def visitIcons.simps languageIconCallback_def
  addLanguageIcon_def classArray_def case_eval languageIcons_def startsWith_def
  objectPrototypeProperties_def getProperty_def orElse_def splitValue_def languageIconNode_def
  Let_def

text \<open>
  On a \<^verbatim>\<open>pre\<close> element whose \<^verbatim>\<open>code\<close> child names a language that the icon table has,
  or that is no property of \<^verbatim>\<open>Object.prototype\<close> either, the callback adds the class and
  the data attribute and prepends the icon with the entry of the table or the default
  entry. Without a \<^verbatim>\<open>language-\<close> token the node is returned as it is.
\<close>

lemma languageIconCallback_regular:
  assumes "type node = ''element''" "tagName node = Some ''pre''"
    and "find (\<lambda>child. type child = ''element'' \<and> tagName child = Some ''code'')
           (children node) = Some codeElement"
    and "properties codeElement = Some cps" "classArray cps = Inr (Some cls)"
    and "find (\<lambda>c. startsWith c ''language-'') cls = Some languageClass"
    and "language = toLowerCase (drop (length ''language-'') languageClass)"
    and "orElse (getProperty languageIcons language) (getProperty languageIcons ''default'')
           = StringValue icon"
    and "classArray (case properties node of None \<Rightarrow> [] | Some p \<Rightarrow> p) = Inr className"
  shows "languageIconCallback node =
     Inr (Node ''element'' (Some ''pre'') (name node)
            (Some (setProperty ''data-language'' (Str language)
                     (setProperty ''className''
                        (Tokens ((case className of None \<Rightarrow> [] | Some cs \<Rightarrow> cs)
                                   @ [''has-language'']))
                        (case properties node of None \<Rightarrow> [] | Some p \<Rightarrow> p))))
            (dataValue node) (nodeValue node)
            (languageIconNode (split CHR '' '' icon) (toUpperCase language) # children node))"
  using assms by (simp add: languageIconCallback_def addLanguageIcon_def splitValue_def Let_def)

lemma languageIconCallback_no_language:
  assumes "find (\<lambda>child. type child = ''element'' \<and> tagName child = Some ''code'')
           (children node) = Some codeElement"
    and "properties codeElement = Some cps" "classArray cps = Inr (Some cls)"
    and "find (\<lambda>c. startsWith c ''language-'') cls = None"
  shows "languageIconCallback node = Inr node"
  using assms by (simp add: languageIconCallback_def)

text \<open>
  C3. The claim holds on the block tagged \<^verbatim>\<open>language-Python\<close>: the outer element gets
  \<^verbatim>\<open>has-language\<close> and \<^verbatim>\<open>data-language\<close> with the value \<^verbatim>\<open>python\<close>, and the icon with
  the tokens of the table's entry and the title \<^verbatim>\<open>PYTHON\<close> comes first. It fails on the
  blocks tagged \<^verbatim>\<open>language-constructor\<close> and \<^verbatim>\<open>language-__proto__\<close>: these names are
  absent from the table, but reading them from the table object yields the inherited
  property of \<^verbatim>\<open>Object.prototype\<close>, which is truthy, so the default entry is not taken
  and \<^verbatim>\<open>iconClass.split\<close> raises a \<^verbatim>\<open>TypeError\<close> that ends the pass. The title is given
  in code units.
\<close>

theorem language_icon_inherited_key:
  "rehypeCodeLanguageIcons
     (Node ''element'' (Some ''pre'') None None None None
        [Node ''element'' (Some ''code'') None
           (Some [(''className'', Tokens [''language-constructor''])]) None None
           [Node ''text'' None None None None (Some (units ''x = 1'')) []]])
   = Inl TypeError
   \<and> rehypeCodeLanguageIcons
     (Node ''element'' (Some ''pre'') None None None None
        [Node ''element'' (Some ''code'') None
           (Some [(''className'', Tokens [''language-__proto__''])]) None None
           [Node ''text'' None None None None (Some (units ''x = 1'')) []]])
   = Inl TypeError
   \<and> map_of languageIcons ''constructor'' = None \<and> map_of languageIcons ''__proto__'' = None
   \<and> rehypeCodeLanguageIcons
     (Node ''element'' (Some ''pre'') None None None None
        [Node ''element'' (Some ''code'') None
           (Some [(''className'', Tokens [''hljs'', ''language-Python''])]) None None
           [Node ''text'' None None None None (Some (units ''x = 1'')) []]])
   = Inr (Node ''element'' (Some ''pre'') None
            (Some [(''className'', Tokens [''has-language'']),
                   (''data-language'', Str ''python'')]) None None
            [Node ''element'' (Some ''div'') None
               (Some [(''className'', Tokens [''language-icon''])]) None None
               [Node ''element'' (Some ''i'') None
                  (Some [(''className'', Tokens [''fab'', ''fa-python'']),
                         (''title'', Wide (units ''PYTHON''))]) None None []],
             Node ''element'' (Some ''code'') None
               (Some [(''className'', Tokens [''hljs'', ''language-Python''])]) None None
               [Node ''text'' None None None None (Some (units ''x = 1'')) []]])
   \<and> units ''PYTHON'' = [80, 89, 84, 72, 79, 78]"
  by (simp add: icon_eval)

section \<open>Pages that are not Markdown files\<close>

text \<open>
  C8. On a page whose path ends in none of \<^verbatim>\<open>.md\<close>, \<^verbatim>\<open>.markdown\<close>, \<^verbatim>\<open>.mdown\<close>,
  \<^verbatim>\<open>renderMarkdown\<close> returns with the document as it found it, having logged one line,
  and \<^verbatim>\<open>initializeTextTransformations\<close> arranges nothing. On a Markdown path with
  content the document does change.
\<close>

theorem no_activity_off_markdown:
  "(\<not> isMarkdownFile (pathname doc) \<longrightarrow>
      fst (renderMarkdown e doc) = doc
      \<and> snd (renderMarkdown e doc) \<in>
           {[ConsoleLog ''zysays: No markdown content found.''],
            [ConsoleLog ''zysays: Not a markdown file.'']}
      \<and> initializeTextTransformations (pathname doc) loading = NotScheduled)
   \<and> (isMarkdownFile (pathname doc) \<and> preTextContent e = Some raw \<and> raw \<noteq> []
        \<and> markup doc = AsLoaded \<longrightarrow> markup (fst (renderMarkdown e doc)) \<noteq> AsLoaded)
   \<and> (isMarkdownFile path \<longleftrightarrow>
        endsWith path ''.md'' \<or> endsWith path ''.markdown'' \<or> endsWith path ''.mdown'')"
  by (auto simp: renderMarkdown_def initializeTextTransformations_def renderError_def Let_def
      isMarkdownFile_def split: option.splits)

text \<open>The theorem at a path ending in \<^verbatim>\<open>.txt\<close> and at one ending in \<^verbatim>\<open>.md\<close>.\<close>

theorem no_activity_off_markdown_witness:
  "\<not> isMarkdownFile ''/notes/readme.txt''
   \<and> fst (renderMarkdown \<lparr>preTextContent = Some ''# Title'', modulesLoad = True,
                            process = (\<lambda>s. Some s)\<rparr>
            \<lparr>pathname = ''/notes/readme.txt'', title = '''', markup = AsLoaded,
             bodyDisplay = '''', styleLink = False, copyButtons = False\<rparr>)
       = \<lparr>pathname = ''/notes/readme.txt'', title = '''', markup = AsLoaded,
          bodyDisplay = '''', styleLink = False, copyButtons = False\<rparr>
   \<and> initializeTextTransformations ''/notes/readme.txt'' False = NotScheduled
   \<and> isMarkdownFile ''/notes/readme.md''
   \<and> markup (fst (renderMarkdown \<lparr>preTextContent = Some ''# Title'', modulesLoad = True,
                            process = (\<lambda>s. Some s)\<rparr>
            \<lparr>pathname = ''/notes/readme.md'', title = '''', markup = AsLoaded,
             bodyDisplay = '''', styleLink = False, copyButtons = False\<rparr>)) \<noteq> AsLoaded"
proof -
  let ?e = "\<lparr>preTextContent = Some ''# Title'', modulesLoad = True, process = (\<lambda>s. Some s)\<rparr>"
  let ?d = "\<lparr>pathname = ''/notes/readme.txt'', title = '''', markup = AsLoaded,
             bodyDisplay = '''', styleLink = False, copyButtons = False\<rparr>"
  let ?m = "\<lparr>pathname = ''/notes/readme.md'', title = '''', markup = AsLoaded,
             bodyDisplay = '''', styleLink = False, copyButtons = False\<rparr>"
  have n: "\<not> isMarkdownFile (pathname ?d)" by (simp add: isMarkdownFile_def endsWith_def)
  have y: "isMarkdownFile (pathname ?m) \<and> preTextContent ?e = Some ''# Title''
      \<and> ''# Title'' \<noteq> [] \<and> markup ?m = AsLoaded"
    by (simp add: isMarkdownFile_def endsWith_def)
  show ?thesis
    using n y no_activity_off_markdown[of ?d ?e False "''# Title''"]
      no_activity_off_markdown[of ?m ?e False "''# Title''"]
    by simp
qed

end
